theory Spec2Isabelle
  imports Main
begin

section \<open>Data model\<close>

text \<open>
  An attachment as the storage modules see it. A JavaScript property that is absent,
  \<^verbatim>\<open>undefined\<close> or \<^verbatim>\<open>null\<close> is \<open>None\<close>; \<^verbatim>\<open>delete att.f\<close> sets it to \<open>None\<close>.
  \<open>dataUrl\<close> is the base64 data URL read from the file, \<open>att_file\<close> the content of the raw
  File object held by the property \<^verbatim>\<open>file\<close>, \<open>storageUrl\<close> and \<open>storagePath\<close> the Firebase Storage locator.
\<close>

record attachment =
  name :: string
  type :: "string option"
  att_size :: nat
  dataUrl :: "string option"
  textContent :: "string option"
  att_file :: "string option"
  storageUrl :: "string option"
  storagePath :: "string option"

text \<open>
  A report: its id, its date, the remaining descriptive properties as key/value pairs
  (they are only copied by the storage modules), and the attachment array. An absent
  array and an empty one are handled alike by every function modelled here, so both are
  the empty list.
\<close>

record report =
  rid :: string
  date :: string
  descriptive :: "(string \<times> string) list"
  attachments :: "attachment list"

text \<open>JavaScript truthiness of a string-valued property: present and not empty.\<close>

definition truthy :: "string option \<Rightarrow> bool" where
  "truthy v = (case v of None \<Rightarrow> False | Some s \<Rightarrow> s \<noteq> [])"

text \<open>\<^verbatim>\<open>String(n)\<close> for an array index or a list length: the decimal digits.\<close>

definition digit_char :: "nat \<Rightarrow> char" where
  "digit_char d = ''0123456789'' ! d"

function String_nat :: "nat \<Rightarrow> string" where
  "String_nat n =
     (if n < 10 then [digit_char n] else String_nat (n div 10) @ [digit_char (n mod 10)])"
  by pat_completeness auto
termination
  by (relation "measure (\<lambda>n. n)") auto

declare String_nat.simps [simp del]

section \<open>Stores, failures and the order of operations\<close>

text \<open>
  A promise that rejects is \<open>Inl\<close> of the error, one that resolves is \<open>Inr\<close> of its
  value.
\<close>

datatype error =
    IDBOpenError
  | IDBRequestError
  | FirestoreError
  | StorageError
  | StorageObjectNotFound
  | DecodeError
  | DBTimeout

text \<open>
  The operations on the stores in the order in which they take effect. A put is logged
  when its transaction or upload settles, a document write or delete when it is issued.
\<close>

datatype event =
    BlobPutCompleted string
  | BlobPutFailed string
  | UploadCompleted string
  | UploadFailed string
  | ObjectDeleted string
  | ObjectDeleteFailed string
  | DocSetIssued string
  | DocDeleteIssued string

text \<open>
  The three stores: the Firestore collection \<^verbatim>\<open>reports\<close>, the IndexedDB object store
  \<^verbatim>\<open>blobs\<close> of this device (key to dataUrl), and the Firebase Storage bucket (path to
  content).
\<close>

record world =
  docs :: "string \<rightharpoonup> report"
  blobs :: "string \<rightharpoonup> string"
  objects :: "string \<rightharpoonup> string"
  trace :: "event list"

text \<open>
  What the browser and the network do to one call: whether \<^verbatim>\<open>indexedDB.open\<close>
  succeeds, whether the transaction or request on a key does, whether a Firestore or
  Storage call on an id or path does, the download URL of a path, and the decoding of a
  data URL into a Blob (\<^verbatim>\<open>atob\<close> of the part after the comma; \<open>None\<close> when it throws).
\<close>

record env =
  idb_opens :: bool
  idb_put_ok :: "string \<Rightarrow> bool"
  idb_get_ok :: "string \<Rightarrow> bool"
  doc_get_ok :: "string \<Rightarrow> bool"
  doc_set_ok :: "string \<Rightarrow> bool"
  doc_delete_ok :: "string \<Rightarrow> bool"
  obj_put_ok :: "string \<Rightarrow> bool"
  obj_url :: "string \<Rightarrow> string option"
  obj_delete_ok :: "string \<Rightarrow> bool"
  decode_dataUrl :: "string \<Rightarrow> string option"

definition log :: "event \<Rightarrow> world \<Rightarrow> world" where
  "log ev w = w\<lparr>trace := trace w @ [ev]\<rparr>"

subsection \<open>Firestore documents\<close>

definition doc_set :: "env \<Rightarrow> string \<Rightarrow> report \<Rightarrow> world \<Rightarrow> (error + unit) \<times> world" where
  "doc_set e i d w =
     (if doc_set_ok e i then (Inr (), log (DocSetIssued i) (w\<lparr>docs := (docs w)(i \<mapsto> d)\<rparr>))
      else (Inl FirestoreError, log (DocSetIssued i) w))"

definition doc_get :: "env \<Rightarrow> string \<Rightarrow> world \<Rightarrow> error + report option" where
  "doc_get e i w = (if doc_get_ok e i then Inr (docs w i) else Inl FirestoreError)"

definition doc_delete :: "env \<Rightarrow> string \<Rightarrow> world \<Rightarrow> (error + unit) \<times> world" where
  "doc_delete e i w =
     (if doc_delete_ok e i
      then (Inr (), log (DocDeleteIssued i) (w\<lparr>docs := (docs w)(i := None)\<rparr>))
      else (Inl FirestoreError, log (DocDeleteIssued i) w))"

section \<open>Firestore with the IndexedDB fallback for large attachments\<close>

subsection \<open>The local blob store\<close>

text \<open>
  \<^verbatim>\<open>saveBlobLocal\<close>: opens the database, puts \<open>{key, dataUrl}\<close>, resolves when the
  transaction completes and rejects on its error or when the database does not open.
\<close>

definition saveBlobLocal :: "env \<Rightarrow> string \<Rightarrow> string \<Rightarrow> world \<Rightarrow> (error + unit) \<times> world" where
  "saveBlobLocal e key d w =
     (if \<not> idb_opens e then (Inl IDBOpenError, w)
      else if idb_put_ok e key
        then (Inr (), log (BlobPutCompleted key) (w\<lparr>blobs := (blobs w)(key \<mapsto> d)\<rparr>))
      else (Inl IDBRequestError, log (BlobPutFailed key) w))"

text \<open>
  \<^verbatim>\<open>getBlobLocal\<close>: opens the database and reads the key. The request's success gives
  the stored dataUrl or null, the request's error gives null; a database that does not
  open rejects, as nothing catches the rejection of \<^verbatim>\<open>openLocalDB\<close>.
\<close>

definition getBlobLocal :: "env \<Rightarrow> string \<Rightarrow> world \<Rightarrow> error + string option" where
  "getBlobLocal e key w =
     (if \<not> idb_opens e then Inl IDBOpenError
      else if idb_get_ok e key then Inr (blobs w key)
      else Inr None)"

subsection \<open>Preparing a report for the document store\<close>

definition MAX_INLINE_SIZE :: nat where
  "MAX_INLINE_SIZE = 800000"

text \<open>
  The callback of \<^verbatim>\<open>clone.attachments.map\<close>: the copy of the attachment that goes
  into the document, and the local put it asks for, if any.
\<close>

definition blobKey :: "string \<Rightarrow> nat \<Rightarrow> string" where
  "blobKey report_id i = report_id @ ''_att_'' @ String_nat i"

definition place_attachment :: "string \<Rightarrow> attachment \<Rightarrow> nat \<Rightarrow> attachment \<times> (string \<times> string) list" where
  "place_attachment report_id att i =
     (case dataUrl att of
        None \<Rightarrow> (att, [])
      | Some d \<Rightarrow>
          if d \<noteq> [] \<and> length d > MAX_INLINE_SIZE
          then (let key = blobKey report_id i
                in (att\<lparr>dataUrl := Some (''local:'' @ key)\<rparr>, [(key, d)]))
          else (att, []))"

definition placed :: "report \<Rightarrow> (attachment \<times> (string \<times> string) list) list" where
  "placed r = map (\<lambda>(i, att). place_attachment (rid r) att i) (enumerate 0 (attachments r))"

definition cleaned_local :: "report \<Rightarrow> report" where
  "cleaned_local r = r\<lparr>attachments := map fst (placed r)\<rparr>"

definition blob_puts :: "report \<Rightarrow> (string \<times> string) list" where
  "blob_puts r = concat (map snd (placed r))"

text \<open>
  \<^verbatim>\<open>Promise.all(blobPromises)\<close>: every put has been started by the map, each settles,
  and the result is the first rejection if there is one.
\<close>

fun all_puts :: "env \<Rightarrow> (string \<times> string) list \<Rightarrow> world \<Rightarrow> (error + unit) \<times> world" where
  "all_puts e [] w = (Inr (), w)"
| "all_puts e ((key, d) # ps) w =
     (case saveBlobLocal e key d w of
        (Inl err, w') \<Rightarrow> (Inl err, snd (all_puts e ps w'))
      | (Inr u, w') \<Rightarrow> all_puts e ps w')"

definition prepareForFirestore_local :: "env \<Rightarrow> report \<Rightarrow> world \<Rightarrow> (error + report) \<times> world" where
  "prepareForFirestore_local e r w =
     (case all_puts e (blob_puts r) w of
        (Inl err, w') \<Rightarrow> (Inl err, w')
      | (Inr u, w') \<Rightarrow> (Inr (cleaned_local r), w'))"

definition saveReport_local :: "env \<Rightarrow> report \<Rightarrow> world \<Rightarrow> (error + unit) \<times> world" where
  "saveReport_local e r w =
     (case prepareForFirestore_local e r w of
        (Inl err, w') \<Rightarrow> (Inl err, w')
      | (Inr cleaned, w') \<Rightarrow> doc_set e (rid r) cleaned w')"

definition deleteReport_local :: "env \<Rightarrow> string \<Rightarrow> world \<Rightarrow> (error + unit) \<times> world" where
  "deleteReport_local e i w = doc_delete e i w"

subsection \<open>Restoring a report after a read\<close>

text \<open>
  The callback of \<^verbatim>\<open>report.attachments.map\<close> in \<^verbatim>\<open>restoreFromFirestore\<close>: a dataUrl
  that starts with \<^verbatim>\<open>local:\<close> is replaced by what \<^verbatim>\<open>getBlobLocal\<close> resolves to for
  the rest of the string; the rejection of \<^verbatim>\<open>getBlobLocal\<close> is the rejection of the
  callback's promise.
\<close>

definition restore_attachment :: "env \<Rightarrow> world \<Rightarrow> attachment \<Rightarrow> error + attachment" where
  "restore_attachment e w att =
     (case dataUrl att of
        None \<Rightarrow> Inr att
      | Some d \<Rightarrow>
          if d \<noteq> [] \<and> take 6 d = ''local:''
          then (case getBlobLocal e (drop 6 d) w of
                  Inl err \<Rightarrow> Inl err
                | Inr v \<Rightarrow> Inr (att\<lparr>dataUrl := v\<rparr>))
          else Inr att)"

fun restore_all :: "env \<Rightarrow> world \<Rightarrow> attachment list \<Rightarrow> error + attachment list" where
  "restore_all e w [] = Inr []"
| "restore_all e w (att # atts) =
     (case restore_attachment e w att of
        Inl err \<Rightarrow> Inl err
      | Inr a \<Rightarrow> (case restore_all e w atts of Inl err \<Rightarrow> Inl err | Inr as \<Rightarrow> Inr (a # as)))"

definition restoreFromFirestore :: "env \<Rightarrow> world \<Rightarrow> report \<Rightarrow> error + report" where
  "restoreFromFirestore e w r =
     (if attachments r = [] then Inr r
      else (case restore_all e w (attachments r) of
              Inl err \<Rightarrow> Inl err
            | Inr atts \<Rightarrow> Inr (r\<lparr>attachments := atts\<rparr>)))"

definition getReport_local :: "env \<Rightarrow> string \<Rightarrow> world \<Rightarrow> error + report option" where
  "getReport_local e i w =
     (case doc_get e i w of
        Inl err \<Rightarrow> Inl err
      | Inr None \<Rightarrow> Inr None
      | Inr (Some d) \<Rightarrow>
          (case restoreFromFirestore e w d of Inl err \<Rightarrow> Inl err | Inr r \<Rightarrow> Inr (Some r)))"

section \<open>Firestore with Firebase Storage for the attachment files\<close>

text \<open>
  \<^verbatim>\<open>uploadAttachment\<close>: puts the data at \<^verbatim>\<open>attachments/<reportId>/<fileName>\<close>, then
  asks for the download URL; resolves to the pair of URL and path.
\<close>

definition uploadAttachment ::
  "env \<Rightarrow> string \<Rightarrow> string \<Rightarrow> string \<Rightarrow> world \<Rightarrow> (error + string \<times> string) \<times> world" where
  "uploadAttachment e reportId fileName fileData w =
     (let path = ''attachments/'' @ reportId @ ''/'' @ fileName in
      if obj_put_ok e path
      then (case obj_url e path of
              None \<Rightarrow> Inl StorageError
            | Some url \<Rightarrow> Inr (url, path),
            log (UploadCompleted path) (w\<lparr>objects := (objects w)(path \<mapsto> fileData)\<rparr>))
      else (Inl StorageError, log (UploadFailed path) w))"

text \<open>
  \<^verbatim>\<open>deleteAttachment\<close>: no path, nothing to do; a delete that fails with
  \<^verbatim>\<open>storage/object-not-found\<close> counts as done; any other error is thrown again.
\<close>

definition deleteAttachment :: "env \<Rightarrow> string option \<Rightarrow> world \<Rightarrow> (error + unit) \<times> world" where
  "deleteAttachment e sp w =
     (case sp of
        None \<Rightarrow> (Inr (), w)
      | Some path \<Rightarrow>
          if path = [] then (Inr (), w)
          else if \<not> obj_delete_ok e path then (Inl StorageError, log (ObjectDeleteFailed path) w)
          else if objects w path = None then (Inr (), w)
          else (Inr (), log (ObjectDeleted path) (w\<lparr>objects := (objects w)(path := None)\<rparr>)))"

text \<open>
  The callback of \<^verbatim>\<open>clone.attachments.map\<close> in the Storage module, for the copy
  \<^verbatim>\<open>attClone\<close> of one attachment. \<open>Threw\<close> is the exception of \<^verbatim>\<open>atob\<close>, thrown
  inside the map; \<open>Settled\<close> carries the rejection of the upload, if any, and the copy as
  the callbacks of the upload have left it.
\<close>

datatype step = Threw | Settled "error option" attachment

definition uploaded :: "attachment \<Rightarrow> string \<times> string \<Rightarrow> attachment" where
  "uploaded att res = att\<lparr>storageUrl := Some (fst res), storagePath := Some (snd res)\<rparr>"

definition upload_step :: "env \<Rightarrow> string \<Rightarrow> attachment \<Rightarrow> world \<Rightarrow> step \<times> world" where
  "upload_step e report_id att w =
     (case att_file att of
        Some f \<Rightarrow>
          (case uploadAttachment e report_id (name att) f w of
             (Inl err, w') \<Rightarrow> (Settled (Some err) att, w')
           | (Inr res, w') \<Rightarrow>
               (Settled None ((uploaded att res)\<lparr>att_file := None, dataUrl := None\<rparr>), w'))
      | None \<Rightarrow>
          if truthy (dataUrl att) \<and> \<not> truthy (storageUrl att)
          then (case decode_dataUrl e (the (dataUrl att)) of
                  None \<Rightarrow> (Threw, w)
                | Some blob \<Rightarrow>
                    (case uploadAttachment e report_id (name att) blob w of
                       (Inl err, w') \<Rightarrow> (Settled (Some err) att, w')
                     | (Inr res, w') \<Rightarrow>
                         (Settled None ((uploaded att res)\<lparr>dataUrl := None\<rparr>), w')))
          else (Settled None (att\<lparr>att_file := None, dataUrl := None\<rparr>), w))"

text \<open>
  The map over the array and \<^verbatim>\<open>Promise.all\<close>. The array is the caller's own
  (\<^verbatim>\<open>Object.assign\<close> copies the report one level deep), and
  \<^verbatim>\<open>clone.attachments[i] = attClone\<close> writes each copy into it: the second component is
  that array afterwards. An exception in the map leaves the later elements as they
  were and their uploads unissued, and is the error of the whole call; otherwise the
  error is the first rejection.
\<close>

fun upload_all ::
  "env \<Rightarrow> string \<Rightarrow> attachment list \<Rightarrow> world \<Rightarrow> error option \<times> attachment list \<times> world" where
  "upload_all e report_id [] w = (None, [], w)"
| "upload_all e report_id (att # atts) w =
     (case upload_step e report_id att w of
        (Threw, w') \<Rightarrow> (Some DecodeError, att # atts, w')
      | (Settled r att', w') \<Rightarrow>
          (case upload_all e report_id atts w' of
             (rs, atts', w'') \<Rightarrow>
               (if rs = Some DecodeError then rs else if r = None then rs else r,
                att' # atts', w'')))"

text \<open>
  The result, the caller's report as the call leaves it, and the stores.
\<close>

definition prepareForFirestore_remote ::
  "env \<Rightarrow> report \<Rightarrow> world \<Rightarrow> (error + report) \<times> report \<times> world" where
  "prepareForFirestore_remote e r w =
     (if attachments r = [] then (Inr r, r, w)
      else (case upload_all e (rid r) (attachments r) w of
              (rs, atts', w') \<Rightarrow>
                (case rs of None \<Rightarrow> Inr (r\<lparr>attachments := atts'\<rparr>) | Some err \<Rightarrow> Inl err,
                 r\<lparr>attachments := atts'\<rparr>, w')))"

definition saveReport_remote ::
  "env \<Rightarrow> report \<Rightarrow> world \<Rightarrow> (error + report) \<times> report \<times> world" where
  "saveReport_remote e r w =
     (case prepareForFirestore_remote e r w of
        (Inl err, r', w') \<Rightarrow> (Inl err, r', w')
      | (Inr cleaned, r', w') \<Rightarrow>
          (case doc_set e (rid r) cleaned w' of
             (Inl err, w'') \<Rightarrow> (Inl err, r', w'')
           | (Inr u, w'') \<Rightarrow> (Inr cleaned, r', w'')))"

text \<open>
  \<^verbatim>\<open>deleteReport\<close>: reads the document, starts the delete of every attachment with a
  storage path and the delete of the document, and waits for all of them.
\<close>

fun delete_all :: "env \<Rightarrow> string option list \<Rightarrow> world \<Rightarrow> error option \<times> world" where
  "delete_all e [] w = (None, w)"
| "delete_all e (sp # sps) w =
     (case deleteAttachment e sp w of
        (Inl err, w') \<Rightarrow> (Some err, snd (delete_all e sps w'))
      | (Inr u, w') \<Rightarrow> delete_all e sps w')"

definition storage_paths :: "report option \<Rightarrow> string option list" where
  "storage_paths doc =
     (case doc of
        None \<Rightarrow> []
      | Some d \<Rightarrow> map storagePath (filter (\<lambda>att. truthy (storagePath att)) (attachments d)))"

definition deleteReport_remote :: "env \<Rightarrow> string \<Rightarrow> world \<Rightarrow> (error + unit) \<times> world" where
  "deleteReport_remote e i w =
     (case doc_get e i w of
        Inl err \<Rightarrow> (Inl err, w)
      | Inr doc \<Rightarrow>
          (case delete_all e (storage_paths doc) w of
             (rs, w') \<Rightarrow>
               (case doc_delete e i w' of
                  (res, w'') \<Rightarrow> (case rs of Some err \<Rightarrow> Inl err | None \<Rightarrow> res, w''))))"

section \<open>Environments and stores of the examples\<close>

definition env_ok :: env where
  "env_ok = \<lparr>idb_opens = True, idb_put_ok = (\<lambda>k. True), idb_get_ok = (\<lambda>k. True),
     doc_get_ok = (\<lambda>i. True), doc_set_ok = (\<lambda>i. True), doc_delete_ok = (\<lambda>i. True),
     obj_put_ok = (\<lambda>p. True), obj_url = (\<lambda>p. Some (''https://storage/'' @ p)),
     obj_delete_ok = (\<lambda>p. True), decode_dataUrl = (\<lambda>d. Some d)\<rparr>"

definition env_no_idb :: env where
  "env_no_idb = env_ok\<lparr>idb_opens := False\<rparr>"

definition world0 :: world where
  "world0 = \<lparr>docs = Map.empty, blobs = Map.empty, objects = Map.empty, trace = []\<rparr>"

section \<open>Properties of the module with the IndexedDB fallback\<close>

subsection \<open>Decimal strings are injective\<close>

definition digit_val :: "char \<Rightarrow> nat" where
  "digit_val c = of_char c - 48"

definition nat_of_digits :: "string \<Rightarrow> nat" where
  "nat_of_digits s = foldl (\<lambda>a c. 10 * a + digit_val c) 0 s"

lemma digit_val_digit_char: "d < 10 \<Longrightarrow> digit_val (digit_char d) = d"
proof -
  assume "d < 10"
  then have "d = 0 \<or> d = 1 \<or> d = 2 \<or> d = 3 \<or> d = 4 \<or> d = 5 \<or> d = 6 \<or> d = 7 \<or> d = 8 \<or> d = 9"
    by arith
  then show ?thesis
    by (elim disjE) (simp_all add: digit_val_def digit_char_def)
qed

lemma nat_of_digits_String_nat: "nat_of_digits (String_nat n) = n"
proof (induction n rule: String_nat.induct)
  case (1 n)
  show ?case
  proof (cases "n < 10")
    case True
    then show ?thesis
      by (simp add: String_nat.simps [of n] nat_of_digits_def digit_val_digit_char)
  next
    case False
    with 1 have "nat_of_digits (String_nat (n div 10)) = n div 10" by simp
    with False show ?thesis
      by (simp add: String_nat.simps [of n] nat_of_digits_def digit_val_digit_char)
  qed
qed

lemma String_nat_inj: "String_nat i = String_nat j \<Longrightarrow> i = j"
  by (metis nat_of_digits_String_nat)

lemma blobKey_inj: "blobKey a i = blobKey a j \<Longrightarrow> i = j"
  by (simp add: blobKey_def String_nat_inj)

subsection \<open>What the map over the attachments computes\<close>

lemma place_attachment_cases:
  "place_attachment a att i =
     (case dataUrl att of None \<Rightarrow> (att, [])
      | Some d \<Rightarrow> if MAX_INLINE_SIZE < length d
                  then (att\<lparr>dataUrl := Some (''local:'' @ blobKey a i)\<rparr>, [(blobKey a i, d)])
                  else (att, []))"
  by (auto simp: place_attachment_def Let_def MAX_INLINE_SIZE_def split: option.splits)

lemma length_placed: "length (placed r) = length (attachments r)"
  by (simp add: placed_def)

lemma placed_nth:
  "i < length (attachments r) \<Longrightarrow> placed r ! i = place_attachment (rid r) (attachments r ! i) i"
  by (simp add: placed_def nth_enumerate_eq)

lemma cleaned_local_nth:
  "i < length (attachments r) \<Longrightarrow>
     attachments (cleaned_local r) ! i = fst (place_attachment (rid r) (attachments r ! i) i)"
  by (simp add: cleaned_local_def length_placed placed_nth)

lemma puts_of_enumerate:
  "(k, d) \<in> set (concat (map snd (map (\<lambda>(i, att). place_attachment a att i) (enumerate n xs)))) \<longleftrightarrow>
     (\<exists>j < length xs. dataUrl (xs ! j) = Some d \<and> MAX_INLINE_SIZE < length d \<and> k = blobKey a (n + j))"
proof (induction xs arbitrary: n)
  case Nil
  then show ?case by simp
next
  case (Cons x xs)
  have step: "(\<exists>j < length (x # xs). P j) \<longleftrightarrow> P 0 \<or> (\<exists>j < length xs. P (Suc j))" for P
    by (auto simp: less_Suc_eq_0_disj)
  show ?case
    unfolding step using Cons.IH [of "Suc n"]
    by (auto simp: place_attachment_cases split: option.splits)
qed

lemma blob_puts_iff:
  "(k, d) \<in> set (blob_puts r) \<longleftrightarrow>
     (\<exists>j < length (attachments r). dataUrl (attachments r ! j) = Some d
        \<and> MAX_INLINE_SIZE < length d \<and> k = blobKey (rid r) j)"
  using puts_of_enumerate [of k d "rid r" 0 "attachments r"]
  by (simp add: blob_puts_def placed_def)

lemma blob_puts_payload:
  assumes "(blobKey (rid r) i, d') \<in> set (blob_puts r)"
  shows "i < length (attachments r) \<and> dataUrl (attachments r ! i) = Some d'
           \<and> MAX_INLINE_SIZE < length d'"
proof -
  from assms obtain j where j: "j < length (attachments r)"
      "dataUrl (attachments r ! j) = Some d'" "MAX_INLINE_SIZE < length d'"
      "blobKey (rid r) i = blobKey (rid r) j"
    unfolding blob_puts_iff by blast
  from j(4) have "i = j" by (rule blobKey_inj)
  with j show ?thesis by simp
qed

subsection \<open>What the puts leave in the local store\<close>

lemma all_puts_blobs:
  "all_puts e ps w = (Inr u, w') \<Longrightarrow> blobs w' = blobs w ++ map_of (rev ps)"
proof (induction ps arbitrary: w)
  case Nil
  then show ?case by simp
next
  case (Cons p ps)
  obtain k d where p: "p = (k, d)" by (cases p)
  from Cons.prems p have ok: "idb_opens e" "idb_put_ok e k"
    by (auto simp: saveBlobLocal_def split: if_splits prod.splits sum.splits)
  let ?w1 = "log (BlobPutCompleted k) (w\<lparr>blobs := (blobs w)(k \<mapsto> d)\<rparr>)"
  from Cons.prems p ok have "all_puts e ps ?w1 = (Inr u, w')"
    by (simp add: saveBlobLocal_def)
  from Cons.IH [OF this] have "blobs w' = (blobs w)(k \<mapsto> d) ++ map_of (rev ps)"
    by (simp add: log_def fun_upd_def)
  moreover have "(blobs w)(k \<mapsto> d) ++ map_of (rev ps) = blobs w ++ map_of (rev (p # ps))"
    by (rule ext) (simp add: p map_add_def split: option.splits)
  ultimately show ?case by simp
qed

lemma map_of_single_valued:
  assumes "(k, v) \<in> set xs" and "\<And>v'. (k, v') \<in> set xs \<Longrightarrow> v' = v"
  shows "map_of xs k = Some v"
proof (cases "map_of xs k")
  case None
  with assms(1) show ?thesis
    by (force simp: map_of_eq_None_iff)
next
  case (Some v')
  then have "(k, v') \<in> set xs" by (rule map_of_SomeD)
  with assms(2) Some show ?thesis by simp
qed

lemma prepare_local_stores_payload:
  assumes ok: "prepareForFirestore_local e r w = (Inr c, w')"
      and i: "i < length (attachments r)"
      and d: "dataUrl (attachments r ! i) = Some d" "MAX_INLINE_SIZE < length d"
  shows "c = cleaned_local r \<and> blobs w' (blobKey (rid r) i) = Some d"
proof -
  from ok obtain u where run: "all_puts e (blob_puts r) w = (Inr u, w')" and c: "c = cleaned_local r"
    by (auto simp: prepareForFirestore_local_def split: prod.splits sum.splits)
  have mem: "(blobKey (rid r) i, d) \<in> set (rev (blob_puts r))"
    using i d by (auto simp: blob_puts_iff)
  have "map_of (rev (blob_puts r)) (blobKey (rid r) i) = Some d"
  proof (rule map_of_single_valued [OF mem])
    fix v' assume "(blobKey (rid r) i, v') \<in> set (rev (blob_puts r))"
    then have "dataUrl (attachments r ! i) = Some v'"
      using blob_puts_payload [of r i v'] by simp
    with d show "v' = d" by simp
  qed
  with all_puts_blobs [OF run] c show ?thesis by simp
qed

subsection \<open>Example reports\<close>

definition small_att :: attachment where
  "small_att = \<lparr>name = ''note.txt'', type = Some ''text/plain'', att_size = 3,
     dataUrl = Some ''data:text/plain;base64,YWJj'', textContent = Some ''abc'',
     att_file = None, storageUrl = None, storagePath = None\<rparr>"

definition big_att :: attachment where
  "big_att = \<lparr>name = ''scan.pdf'', type = Some ''application/pdf'', att_size = 600000,
     dataUrl = Some (replicate 800001 (CHR ''A'')), textContent = None,
     att_file = None, storageUrl = None, storagePath = None\<rparr>"

definition report1 :: report where
  "report1 = \<lparr>rid = ''RPT-2024-0001'', date = ''2024-06-01'', descriptive = [],
     attachments = [small_att, big_att]\<rparr>"

text \<open>The stores after the first example has been saved on a device with empty stores.\<close>

definition world1 :: world where
  "world1 = snd (saveReport_local env_ok report1 world0)"

subsection \<open>A save resolves when the stores work\<close>

lemma all_puts_resolves:
  assumes "idb_opens e"
  shows "\<forall>k \<in> fst ` set ps. idb_put_ok e k \<Longrightarrow> \<exists>w'. all_puts e ps w = (Inr (), w')"
proof (induction ps arbitrary: w)
  case Nil
  show ?case by simp
next
  case (Cons p ps)
  obtain k d where p: "p = (k, d)" by (cases p)
  from Cons.prems p have k: "idb_put_ok e k" and rest: "\<forall>k \<in> fst ` set ps. idb_put_ok e k"
    by simp_all
  let ?w1 = "log (BlobPutCompleted k) (w\<lparr>blobs := (blobs w)(k \<mapsto> d)\<rparr>)"
  from Cons.IH [OF rest, of ?w1] obtain w' where "all_puts e ps ?w1 = (Inr (), w')" by blast
  with assms k p show ?case
    by (simp add: saveBlobLocal_def)
qed

lemma prepare_local_resolves:
  assumes "idb_opens e" and "\<forall>k \<in> fst ` set (blob_puts r). idb_put_ok e k"
  shows "\<exists>w1. prepareForFirestore_local e r w = (Inr (cleaned_local r), w1)"
proof -
  from all_puts_resolves [OF assms] obtain w1
    where "all_puts e (blob_puts r) w = (Inr (), w1)"
    by blast
  then show ?thesis
    by (simp add: prepareForFirestore_local_def)
qed

lemma saveReport_local_resolves:
  assumes "idb_opens e" and "\<forall>k \<in> fst ` set (blob_puts r). idb_put_ok e k"
    and "doc_set_ok e (rid r)"
  shows "\<exists>w1 w2. prepareForFirestore_local e r w = (Inr (cleaned_local r), w1)
           \<and> saveReport_local e r w = (Inr (), w2)
           \<and> docs w2 (rid r) = Some (cleaned_local r) \<and> blobs w2 = blobs w1"
proof -
  from all_puts_resolves [OF assms(1,2)] obtain w1
    where a: "all_puts e (blob_puts r) w = (Inr (), w1)"
    by blast
  then have p: "prepareForFirestore_local e r w = (Inr (cleaned_local r), w1)"
    by (simp add: prepareForFirestore_local_def)
  let ?w2 = "log (DocSetIssued (rid r)) (w1\<lparr>docs := (docs w1)(rid r \<mapsto> cleaned_local r)\<rparr>)"
  from p assms(3) have "saveReport_local e r w = (Inr (), ?w2)"
    by (simp add: saveReport_local_def doc_set_def)
  moreover have "docs ?w2 (rid r) = Some (cleaned_local r)" "blobs ?w2 = blobs w1"
    by (simp_all add: log_def)
  ultimately show ?thesis using p by blast
qed

subsection \<open>Placement by payload size\<close>

text \<open>
  Claim C1. With no remote blob store (the Firestore module with the IndexedDB fallback),
  an attachment whose payload, the dataUrl, has a length of at most
  \<open>MAX_INLINE_SIZE = 800000\<close> is placed inline: its copy in the document is the
  attachment itself and no local put is issued under its key. An attachment whose
  payload is longer is placed in overflow: its copy in the document carries the reference
  \<^verbatim>\<open>local:<id>_att_<i>\<close> in place of the payload, the put of the payload under that
  key is issued, and whenever the preparation resolves the local store holds the payload
  under that key. Whenever the local database opens and the puts of the report succeed,
  the preparation does resolve, and the local store then holds the payload of an
  attachment in overflow under its key; when the document write succeeds too, the save
  resolves, the document stored under the report's id is the prepared copy, and the
  payload is in the local store. The size compared is the length of the dataUrl string.
\<close>

theorem placement_by_payload_size:
  assumes "i < length (attachments r)" and "dataUrl (attachments r ! i) = Some d"
  shows "MAX_INLINE_SIZE = 800000 \<and>
    (if length d \<le> MAX_INLINE_SIZE
     then attachments (cleaned_local r) ! i = attachments r ! i
        \<and> blobKey (rid r) i \<notin> fst ` set (blob_puts r)
     else attachments (cleaned_local r) ! i
            = (attachments r ! i)\<lparr>dataUrl := Some (''local:'' @ blobKey (rid r) i)\<rparr>
        \<and> (blobKey (rid r) i, d) \<in> set (blob_puts r)
        \<and> (\<forall>e w c w'. prepareForFirestore_local e r w = (Inr c, w') \<longrightarrow>
              c = cleaned_local r \<and> blobs w' (blobKey (rid r) i) = Some d))
    \<and> (\<forall>e w. idb_opens e \<and> (\<forall>k \<in> fst ` set (blob_puts r). idb_put_ok e k) \<longrightarrow>
          (\<exists>w1. prepareForFirestore_local e r w = (Inr (cleaned_local r), w1)
             \<and> (MAX_INLINE_SIZE < length d \<longrightarrow> blobs w1 (blobKey (rid r) i) = Some d)
             \<and> (doc_set_ok e (rid r) \<longrightarrow>
                  (\<exists>w2. saveReport_local e r w = (Inr (), w2)
                     \<and> docs w2 (rid r) = Some (cleaned_local r)
                     \<and> (MAX_INLINE_SIZE < length d \<longrightarrow>
                           blobs w2 (blobKey (rid r) i) = Some d)))))"
proof -
  have decision: "if length d \<le> MAX_INLINE_SIZE
     then attachments (cleaned_local r) ! i = attachments r ! i
        \<and> blobKey (rid r) i \<notin> fst ` set (blob_puts r)
     else attachments (cleaned_local r) ! i
            = (attachments r ! i)\<lparr>dataUrl := Some (''local:'' @ blobKey (rid r) i)\<rparr>
        \<and> (blobKey (rid r) i, d) \<in> set (blob_puts r)
        \<and> (\<forall>e w c w'. prepareForFirestore_local e r w = (Inr c, w') \<longrightarrow>
              c = cleaned_local r \<and> blobs w' (blobKey (rid r) i) = Some d)"
  proof (cases "length d \<le> MAX_INLINE_SIZE")
    case True
    have "attachments (cleaned_local r) ! i = attachments r ! i"
      using assms True by (simp add: cleaned_local_nth place_attachment_cases)
    moreover have "blobKey (rid r) i \<notin> fst ` set (blob_puts r)"
    proof
      assume "blobKey (rid r) i \<in> fst ` set (blob_puts r)"
      then obtain d' where "(blobKey (rid r) i, d') \<in> set (blob_puts r)" by force
      from blob_puts_payload [OF this] assms(2) True show False by simp
    qed
    ultimately show ?thesis using True by simp
  next
    case False
    then have big: "MAX_INLINE_SIZE < length d" by simp
    have "attachments (cleaned_local r) ! i
            = (attachments r ! i)\<lparr>dataUrl := Some (''local:'' @ blobKey (rid r) i)\<rparr>"
      using assms big by (simp add: cleaned_local_nth place_attachment_cases)
    moreover have "(blobKey (rid r) i, d) \<in> set (blob_puts r)"
      using assms big by (auto simp: blob_puts_iff)
    moreover have "\<forall>e w c w'. prepareForFirestore_local e r w = (Inr c, w') \<longrightarrow>
        c = cleaned_local r \<and> blobs w' (blobKey (rid r) i) = Some d"
      using prepare_local_stores_payload [OF _ assms(1) assms(2) big] by blast
    ultimately show ?thesis using False by simp
  qed
  have resolves: "\<exists>w1. prepareForFirestore_local e r w = (Inr (cleaned_local r), w1)
             \<and> (MAX_INLINE_SIZE < length d \<longrightarrow> blobs w1 (blobKey (rid r) i) = Some d)
             \<and> (doc_set_ok e (rid r) \<longrightarrow>
                  (\<exists>w2. saveReport_local e r w = (Inr (), w2)
                     \<and> docs w2 (rid r) = Some (cleaned_local r)
                     \<and> (MAX_INLINE_SIZE < length d \<longrightarrow>
                           blobs w2 (blobKey (rid r) i) = Some d)))"
    if env: "idb_opens e \<and> (\<forall>k \<in> fst ` set (blob_puts r). idb_put_ok e k)" for e w
  proof -
    from env have e1: "idb_opens e" and e2: "\<forall>k \<in> fst ` set (blob_puts r). idb_put_ok e k"
      by simp_all
    from prepare_local_resolves [OF e1 e2, of w] obtain w1 where
      p: "prepareForFirestore_local e r w = (Inr (cleaned_local r), w1)"
      by blast
    have b1: "blobs w1 (blobKey (rid r) i) = Some d" if big: "MAX_INLINE_SIZE < length d"
      using prepare_local_stores_payload [OF p assms(1) assms(2) big] by simp
    have "\<exists>w2. saveReport_local e r w = (Inr (), w2)
                     \<and> docs w2 (rid r) = Some (cleaned_local r)
                     \<and> (MAX_INLINE_SIZE < length d \<longrightarrow>
                           blobs w2 (blobKey (rid r) i) = Some d)"
      if e3: "doc_set_ok e (rid r)"
    proof -
      from saveReport_local_resolves [OF e1 e2 e3, of w] obtain w1' w2 where
        p': "prepareForFirestore_local e r w = (Inr (cleaned_local r), w1')"
        and s: "saveReport_local e r w = (Inr (), w2)"
        and dc: "docs w2 (rid r) = Some (cleaned_local r)" and b: "blobs w2 = blobs w1'"
        by blast
      from p p' have "w1' = w1" by simp
      with b b1 s dc show ?thesis by auto
    qed
    with p b1 show ?thesis by blast
  qed
  from decision resolves show ?thesis
    by (simp add: MAX_INLINE_SIZE_def)
qed

lemma String_nat_1: "String_nat (Suc 0) = ''1''"
  by (simp add: String_nat.simps [of "Suc 0"] digit_char_def)

theorem placement_by_payload_size_witness:
  "attachments (cleaned_local report1) ! 0 = small_att
   \<and> dataUrl (attachments (cleaned_local report1) ! 1) = Some ''local:RPT-2024-0001_att_1''
   \<and> (''RPT-2024-0001_att_1'', replicate 800001 (CHR ''A'')) \<in> set (blob_puts report1)
   \<and> saveReport_local env_ok report1 world0 = (Inr (), world1)
   \<and> docs world1 ''RPT-2024-0001'' = Some (cleaned_local report1)
   \<and> blobs world1 ''RPT-2024-0001_att_1'' = Some (replicate 800001 (CHR ''A''))"
proof -
  have a: "0 < length (attachments report1)" "1 < length (attachments report1)"
    by (simp_all add: report1_def)
  have d0: "dataUrl (attachments report1 ! 0) = Some ''data:text/plain;base64,YWJj''"
    by (simp add: report1_def small_att_def)
  have d1: "dataUrl (attachments report1 ! 1) = Some (replicate 800001 (CHR ''A''))"
    by (simp add: report1_def big_att_def)
  have k: "blobKey (rid report1) (Suc 0) = ''RPT-2024-0001_att_1''"
    by (simp add: blobKey_def report1_def String_nat_1)
  have i: "rid report1 = ''RPT-2024-0001''"
    by (simp add: report1_def)
  have env: "idb_opens env_ok \<and> (\<forall>k \<in> fst ` set (blob_puts report1). idb_put_ok env_ok k)"
    "doc_set_ok env_ok (rid report1)"
    by (simp_all add: env_ok_def)
  from placement_by_payload_size [OF a(1) d0]
  have "attachments (cleaned_local report1) ! 0 = small_att"
    by (simp add: MAX_INLINE_SIZE_def) (simp add: report1_def)
  moreover from placement_by_payload_size [OF a(2) d1]
  have "dataUrl (attachments (cleaned_local report1) ! 1) = Some ''local:RPT-2024-0001_att_1''
     \<and> (''RPT-2024-0001_att_1'', replicate 800001 (CHR ''A'')) \<in> set (blob_puts report1)"
    by (simp add: MAX_INLINE_SIZE_def k)
  moreover have "saveReport_local env_ok report1 world0 = (Inr (), world1)
     \<and> docs world1 ''RPT-2024-0001'' = Some (cleaned_local report1)
     \<and> blobs world1 ''RPT-2024-0001_att_1'' = Some (replicate 800001 (CHR ''A''))"
  proof -
    from placement_by_payload_size [OF a(2) d1] env
    obtain w2 where s: "saveReport_local env_ok report1 world0 = (Inr (), w2)"
      and dc: "docs w2 (rid report1) = Some (cleaned_local report1)"
      and b: "MAX_INLINE_SIZE < length (replicate 800001 (CHR ''A'')) \<longrightarrow>
                blobs w2 (blobKey (rid report1) 1) = Some (replicate 800001 (CHR ''A''))"
      by blast
    from s have "w2 = world1" by (simp add: world1_def)
    moreover have "blobKey ''RPT-2024-0001'' (Suc 0) = ''RPT-2024-0001_att_1''"
      using k i by simp
    ultimately show ?thesis
      using s dc b by (simp add: MAX_INLINE_SIZE_def i)
  qed
  ultimately show ?thesis by simp
qed


subsection \<open>More examples\<close>

definition unreadable_att :: attachment where
  "unreadable_att = \<lparr>name = ''video.bin'', type = Some ''application/octet-stream'',
     att_size = 2000000, dataUrl = None, textContent = None,
     att_file = None, storageUrl = None, storagePath = None\<rparr>"

definition report2 :: report where
  "report2 = \<lparr>rid = ''RPT-2024-0002'', date = ''2024-06-02'', descriptive = [],
     attachments = [unreadable_att]\<rparr>"

lemma String_nat_0: "String_nat 0 = ''0''"
  by (simp add: String_nat.simps [of 0] digit_char_def)

lemma blob_puts_report1:
  "blob_puts report1 = [(''RPT-2024-0001_att_1'', replicate 800001 (CHR ''A''))]"
  by (simp add: blob_puts_def placed_def report1_def small_att_def big_att_def
      place_attachment_cases MAX_INLINE_SIZE_def blobKey_def String_nat_1 String_nat_0)

lemma cleaned_local_report1:
  "cleaned_local report1 = report1\<lparr>attachments :=
     [small_att, big_att\<lparr>dataUrl := Some ''local:RPT-2024-0001_att_1''\<rparr>]\<rparr>"
  by (simp add: cleaned_local_def placed_def report1_def small_att_def big_att_def
      place_attachment_cases MAX_INLINE_SIZE_def blobKey_def String_nat_1 String_nat_0)

lemma world1_eq:
  "world1 = \<lparr>docs = [''RPT-2024-0001'' \<mapsto> cleaned_local report1],
     blobs = [''RPT-2024-0001_att_1'' \<mapsto> replicate 800001 (CHR ''A'')],
     objects = Map.empty,
     trace = [BlobPutCompleted ''RPT-2024-0001_att_1'', DocSetIssued ''RPT-2024-0001'']\<rparr>"
  by (simp add: world1_def saveReport_local_def prepareForFirestore_local_def blob_puts_report1
      saveBlobLocal_def env_ok_def world0_def log_def doc_set_def)
    (simp add: report1_def)

subsection \<open>An attachment without a payload\<close>

text \<open>
  The upload form resolves an attachment whose file could not be read with
  \<^verbatim>\<open>dataUrl: null\<close>: a payload with no length to measure. The guard
  \<^verbatim>\<open>attClone.dataUrl &&\<close> leaves it as it is, and nothing is put in the local store:
  it is not treated as exceeding the budget.
\<close>

theorem unreadable_counterexample:
  "dataUrl unreadable_att = None
   \<and> attachments (cleaned_local report2) = [unreadable_att]
   \<and> blob_puts report2 = []"
  by (simp add: cleaned_local_def blob_puts_def placed_def report2_def unreadable_att_def
      place_attachment_def)

text \<open>
  Claim C9, as the code has it. An attachment whose dataUrl is absent, null or empty is
  left as it is by the preparation: its copy in the document is the attachment itself, and
  no put is issued to the local store under its key.
\<close>

theorem no_payload_left_as_is:
  assumes "i < length (attachments r)" and "\<not> truthy (dataUrl (attachments r ! i))"
  shows "attachments (cleaned_local r) ! i = attachments r ! i
         \<and> blobKey (rid r) i \<notin> fst ` set (blob_puts r)"
proof
  show "attachments (cleaned_local r) ! i = attachments r ! i"
    using assms
    by (auto simp: cleaned_local_nth place_attachment_cases truthy_def split: option.splits)
  show "blobKey (rid r) i \<notin> fst ` set (blob_puts r)"
  proof
    assume "blobKey (rid r) i \<in> fst ` set (blob_puts r)"
    then obtain d' where "(blobKey (rid r) i, d') \<in> set (blob_puts r)" by force
    from blob_puts_payload [OF this] assms(2) show False
      by (auto simp: truthy_def MAX_INLINE_SIZE_def)
  qed
qed

theorem no_payload_left_as_is_witness:
  "attachments (cleaned_local report2) ! 0 = unreadable_att
   \<and> blobKey ''RPT-2024-0002'' 0 \<notin> fst ` set (blob_puts report2)"
proof -
  have "0 < length (attachments report2)"
    by (simp add: report2_def)
  moreover have "\<not> truthy (dataUrl (attachments report2 ! 0))"
    by (simp add: report2_def unreadable_att_def truthy_def)
  ultimately show ?thesis
    using no_payload_left_as_is [of 0 report2] by (simp add: report2_def)
qed

subsection \<open>Reading the local store when the database does not open\<close>

text \<open>
  Claim C10. \<^verbatim>\<open>getBlobLocal\<close> resolves to null on the error of the read request, but
  the rejection of \<^verbatim>\<open>openLocalDB\<close> is not caught: when the database does not open,
  \<^verbatim>\<open>getBlobLocal\<close> rejects, for every key and whatever the store holds.
\<close>

theorem getBlobLocal_rejects_when_database_does_not_open:
  "getBlobLocal env_no_idb key w = Inl IDBOpenError"
  by (simp add: getBlobLocal_def env_no_idb_def env_ok_def)

text \<open>
  As long as the local database opens, the read of a report does not fail on its
  attachments: a document that does not exist gives null, and a document that exists
  gives a report with as many attachments as the document has.
\<close>

lemma restore_attachment_when_database_opens:
  assumes "idb_opens e"
  shows "restore_attachment e w att =
     Inr (case dataUrl att of
            None \<Rightarrow> att
          | Some d \<Rightarrow>
              if d \<noteq> [] \<and> take 6 d = ''local:''
              then att\<lparr>dataUrl := (if idb_get_ok e (drop 6 d) then blobs w (drop 6 d) else None)\<rparr>
              else att)"
  using assms by (simp add: restore_attachment_def getBlobLocal_def split: option.splits)

lemma restore_all_when_database_opens:
  assumes "idb_opens e"
  shows "\<exists>atts'. restore_all e w atts = Inr atts' \<and> length atts' = length atts"
proof (induction atts)
  case Nil
  show ?case by simp
next
  case (Cons att atts)
  then obtain atts' where "restore_all e w atts = Inr atts'" "length atts' = length atts"
    by blast
  then show ?case
    by (simp add: restore_attachment_when_database_opens [OF assms])
qed

lemma getReport_local_when_database_opens:
  assumes "idb_opens e" and "doc_get_ok e i"
  shows "(docs w i = None \<longrightarrow> getReport_local e i w = Inr None)
       \<and> (\<forall>d. docs w i = Some d \<longrightarrow>
             (\<exists>r. getReport_local e i w = Inr (Some r) \<and> rid r = rid d
                  \<and> length (attachments r) = length (attachments d)))"
proof (intro conjI impI allI)
  assume "docs w i = None"
  with assms(2) show "getReport_local e i w = Inr None"
    by (simp add: getReport_local_def doc_get_def)
next
  fix d assume d: "docs w i = Some d"
  from restore_all_when_database_opens [OF assms(1), of w "attachments d"]
  obtain atts' where a: "restore_all e w (attachments d) = Inr atts'"
    "length atts' = length (attachments d)"
    by blast
  show "\<exists>r. getReport_local e i w = Inr (Some r) \<and> rid r = rid d
          \<and> length (attachments r) = length (attachments d)"
  proof (cases "attachments d = []")
    case True
    with d assms(2) show ?thesis
      by (simp add: getReport_local_def doc_get_def restoreFromFirestore_def)
  next
    case False
    with d assms(2) a show ?thesis
      by (simp add: getReport_local_def doc_get_def restoreFromFirestore_def)
  qed
qed

text \<open>
  Claim C8. The report of the first example, saved with its large attachment in the local
  store, is read back whole on the same device; on a device whose local store lacks the
  key it is read back with that attachment's dataUrl null; a document that does not exist
  gives null; but when the local database does not open, the rejection of
  \<^verbatim>\<open>getBlobLocal\<close> rejects the whole read, and no report is returned.
\<close>

theorem getReport_aborts_when_database_does_not_open:
  "getReport_local env_ok ''RPT-2024-0001'' world1 = Inr (Some report1)
   \<and> getReport_local env_ok ''RPT-2024-0001'' (world1\<lparr>blobs := Map.empty\<rparr>)
       = Inr (Some (report1\<lparr>attachments := [small_att, big_att\<lparr>dataUrl := None\<rparr>]\<rparr>))
   \<and> getReport_local env_ok ''RPT-2024-0009'' world1 = Inr None
   \<and> getReport_local env_no_idb ''RPT-2024-0001'' world1 = Inl IDBOpenError"
  by (simp add: getReport_local_def doc_get_def world1_eq cleaned_local_report1
      restoreFromFirestore_def restore_attachment_def getBlobLocal_def
      env_ok_def env_no_idb_def small_att_def)
    (simp add: report1_def big_att_def small_att_def)


section \<open>The order of the writes of a save\<close>

text \<open>
  The events a call has added to the trace; the attachments the Storage module uploads
  (a File object, or a dataUrl without a storage URL) and the path of their upload.
\<close>

definition events_since :: "world \<Rightarrow> world \<Rightarrow> event list" where
  "events_since w w' = drop (length (trace w)) (trace w')"

definition raw_payload :: "attachment \<Rightarrow> bool" where
  "raw_payload att \<longleftrightarrow>
     att_file att \<noteq> None \<or> (truthy (dataUrl att) \<and> \<not> truthy (storageUrl att))"

definition upload_path :: "string \<Rightarrow> attachment \<Rightarrow> string" where
  "upload_path report_id att = ''attachments/'' @ report_id @ ''/'' @ name att"

definition upload_paths :: "report \<Rightarrow> string list" where
  "upload_paths r = map (upload_path (rid r)) (filter raw_payload (attachments r))"

definition is_doc_set :: "event \<Rightarrow> bool" where
  "is_doc_set ev = (case ev of DocSetIssued x \<Rightarrow> True | _ \<Rightarrow> False)"

lemma events_since_append [simp]: "trace w' = trace w @ evs \<Longrightarrow> events_since w w' = evs"
  by (simp add: events_since_def)

lemma saveBlobLocal_trace:
  assumes "saveBlobLocal e k d w = (res, w')"
  shows "\<exists>evs. trace w' = trace w @ evs \<and> \<not> list_ex is_doc_set evs
           \<and> (res = Inr () \<longrightarrow> evs = [BlobPutCompleted k] \<and> blobs w' = (blobs w)(k \<mapsto> d))
           \<and> (res \<noteq> Inr () \<longrightarrow> blobs w' = blobs w)"
  using assms
  by (auto simp: saveBlobLocal_def log_def is_doc_set_def split: if_splits)

lemma all_puts_trace:
  "all_puts e ps w = (res, w') \<Longrightarrow>
     \<exists>evs. trace w' = trace w @ evs \<and> \<not> list_ex is_doc_set evs
       \<and> (res = Inr () \<longrightarrow> evs = map (BlobPutCompleted \<circ> fst) ps
              \<and> fst ` set ps \<subseteq> dom (blobs w'))
       \<and> dom (blobs w) \<subseteq> dom (blobs w')"
proof (induction ps arbitrary: w res w')
  case Nil
  then show ?case by auto
next
  case (Cons p ps)
  obtain k d where p: "p = (k, d)" by (cases p)
  obtain r1 w1 where s1: "saveBlobLocal e k d w = (r1, w1)" by (cases "saveBlobLocal e k d w")
  obtain r2 w2 where s2: "all_puts e ps w1 = (r2, w2)" by (cases "all_puts e ps w1")
  from saveBlobLocal_trace [OF s1] obtain evs1 where e1:
    "trace w1 = trace w @ evs1" "\<not> list_ex is_doc_set evs1"
    "r1 = Inr () \<longrightarrow> evs1 = [BlobPutCompleted k] \<and> blobs w1 = (blobs w)(k \<mapsto> d)"
    "r1 \<noteq> Inr () \<longrightarrow> blobs w1 = blobs w"
    by blast
  from Cons.IH [OF s2] obtain evs2 where e2:
    "trace w2 = trace w1 @ evs2" "\<not> list_ex is_doc_set evs2"
    "r2 = Inr () \<longrightarrow> evs2 = map (BlobPutCompleted \<circ> fst) ps \<and> fst ` set ps \<subseteq> dom (blobs w2)"
    "dom (blobs w1) \<subseteq> dom (blobs w2)"
    by blast
  have w': "w' = w2" and res: "res = (case r1 of Inl err \<Rightarrow> Inl err | Inr u \<Rightarrow> r2)"
    using Cons.prems p s1 s2 by (auto split: sum.splits)
  have dom1: "dom (blobs w) \<subseteq> dom (blobs w1)"
    using e1(3,4) by (cases "r1 = Inr ()") auto
  show ?case
  proof (intro exI [of _ "evs1 @ evs2"] conjI impI)
    show "trace w' = trace w @ evs1 @ evs2" using w' e1(1) e2(1) by simp
    show "\<not> list_ex is_doc_set (evs1 @ evs2)" using e1(2) e2(2) by (auto simp: list_ex_iff)
    show "dom (blobs w) \<subseteq> dom (blobs w')" using dom1 e2(4) w' by blast
  next
    assume ok: "res = Inr ()"
    then have r1: "r1 = Inr ()" and r2: "r2 = Inr ()"
      using res by (auto split: sum.splits)
    show "evs1 @ evs2 = map (BlobPutCompleted \<circ> fst) (p # ps)"
      using r1 r2 e1(3) e2(3) p by simp
    have "k \<in> dom (blobs w1)" using r1 e1(3) by simp
    then show "fst ` set (p # ps) \<subseteq> dom (blobs w')"
      using r2 e2(3,4) p w' by auto
  qed
qed

lemma doc_set_trace:
  "doc_set e i d w = (res, w') \<Longrightarrow>
     trace w' = trace w @ [DocSetIssued i] \<and> blobs w' = blobs w \<and> objects w' = objects w"
  by (auto simp: doc_set_def log_def split: if_splits)

lemma saveReport_local_order:
  assumes "saveReport_local e r w = (res, w')"
    and "list_ex is_doc_set (events_since w w')"
  shows "events_since w w' = map (BlobPutCompleted \<circ> fst) (blob_puts r) @ [DocSetIssued (rid r)]
         \<and> fst ` set (blob_puts r) \<subseteq> dom (blobs w')"
proof -
  obtain r1 w1 where s1: "all_puts e (blob_puts r) w = (r1, w1)"
    by (cases "all_puts e (blob_puts r) w")
  from all_puts_trace [OF s1] obtain evs1 where e1:
    "trace w1 = trace w @ evs1" "\<not> list_ex is_doc_set evs1"
    "r1 = Inr () \<longrightarrow> evs1 = map (BlobPutCompleted \<circ> fst) (blob_puts r)
        \<and> fst ` set (blob_puts r) \<subseteq> dom (blobs w1)"
    by blast
  show ?thesis
  proof (cases r1)
    case (Inl err)
    with assms(1) s1 have "w' = w1"
      by (simp add: saveReport_local_def prepareForFirestore_local_def)
    with e1 assms(2) show ?thesis by simp
  next
    case (Inr u)
    with assms(1) s1 have "doc_set e (rid r) (cleaned_local r) w1 = (res, w')"
      by (simp add: saveReport_local_def prepareForFirestore_local_def)
    from doc_set_trace [OF this] e1 Inr show ?thesis by simp
  qed
qed

lemma uploadAttachment_effect:
  assumes "uploadAttachment e i n f w = (res, w')"
  shows "\<exists>evs. trace w' = trace w @ evs \<and> \<not> list_ex is_doc_set evs
           \<and> (\<forall>x. res = Inr x \<longrightarrow>
                 evs = [UploadCompleted (''attachments/'' @ i @ ''/'' @ n)]
                 \<and> ''attachments/'' @ i @ ''/'' @ n \<in> dom (objects w'))"
    and "dom (objects w) \<subseteq> dom (objects w')" and "docs w' = docs w" and "blobs w' = blobs w"
  using assms
  by (auto simp: uploadAttachment_def Let_def log_def is_doc_set_def
      split: if_splits option.splits)

lemma upload_step_effect:
  assumes "upload_step e i att w = (st, w')"
  shows "\<exists>evs. trace w' = trace w @ evs \<and> \<not> list_ex is_doc_set evs
           \<and> (\<forall>att'. st = Settled None att' \<longrightarrow>
                 evs = (if raw_payload att then [UploadCompleted (upload_path i att)] else [])
                 \<and> (raw_payload att \<longrightarrow> upload_path i att \<in> dom (objects w'))
                 \<and> att_file att' = None \<and> dataUrl att' = None)"
    and "dom (objects w) \<subseteq> dom (objects w')" and "docs w' = docs w" and "blobs w' = blobs w"
proof -
  show "\<exists>evs. trace w' = trace w @ evs \<and> \<not> list_ex is_doc_set evs
           \<and> (\<forall>att'. st = Settled None att' \<longrightarrow>
                 evs = (if raw_payload att then [UploadCompleted (upload_path i att)] else [])
                 \<and> (raw_payload att \<longrightarrow> upload_path i att \<in> dom (objects w'))
                 \<and> att_file att' = None \<and> dataUrl att' = None)"
  proof (cases "att_file att")
    case (Some f)
    obtain res w1 where u: "uploadAttachment e i (name att) f w = (res, w1)"
      by (cases "uploadAttachment e i (name att) f w")
    from assms Some u have w': "w' = w1"
      and st: "st = (case res of Inl err \<Rightarrow> Settled (Some err) att
                     | Inr x \<Rightarrow> Settled None ((uploaded att x)\<lparr>att_file := None, dataUrl := None\<rparr>))"
      by (auto simp: upload_step_def split: sum.splits)
    from uploadAttachment_effect(1) [OF u] obtain evs where
      "trace w1 = trace w @ evs" "\<not> list_ex is_doc_set evs"
      "\<forall>x. res = Inr x \<longrightarrow> evs = [UploadCompleted (''attachments/'' @ i @ ''/'' @ name att)]
                 \<and> ''attachments/'' @ i @ ''/'' @ name att \<in> dom (objects w1)"
      by blast
    with w' st Some show ?thesis
      by (intro exI [of _ evs]) (auto simp: raw_payload_def upload_path_def split: sum.splits)
  next
    case None
    show ?thesis
    proof (cases "truthy (dataUrl att) \<and> \<not> truthy (storageUrl att)")
      case False
      with assms None show ?thesis
        by (intro exI [of _ "[]"]) (auto simp: upload_step_def raw_payload_def)
    next
      case True
      show ?thesis
      proof (cases "decode_dataUrl e (the (dataUrl att))")
        case NoneD: None
        with assms None True show ?thesis
          by (intro exI [of _ "[]"]) (auto simp: upload_step_def)
      next
        case (Some blob)
        obtain res w1 where u: "uploadAttachment e i (name att) blob w = (res, w1)"
          by (cases "uploadAttachment e i (name att) blob w")
        from assms None True Some u have w': "w' = w1"
          and st: "st = (case res of Inl err \<Rightarrow> Settled (Some err) att
                     | Inr x \<Rightarrow> Settled None ((uploaded att x)\<lparr>dataUrl := None\<rparr>))"
          by (auto simp: upload_step_def split: sum.splits)
        from uploadAttachment_effect(1) [OF u] obtain evs where
          "trace w1 = trace w @ evs" "\<not> list_ex is_doc_set evs"
          "\<forall>x. res = Inr x \<longrightarrow> evs = [UploadCompleted (''attachments/'' @ i @ ''/'' @ name att)]
                 \<and> ''attachments/'' @ i @ ''/'' @ name att \<in> dom (objects w1)"
          by blast
        with w' st None True show ?thesis
          by (intro exI [of _ evs])
            (auto simp: raw_payload_def upload_path_def uploaded_def split: sum.splits)
      qed
    qed
  qed
  show "dom (objects w) \<subseteq> dom (objects w')"
    using assms uploadAttachment_effect(2)
    by (fastforce simp: upload_step_def split: option.splits if_splits prod.splits sum.splits)
  show "docs w' = docs w"
    using assms uploadAttachment_effect(3)
    by (fastforce simp: upload_step_def split: option.splits if_splits prod.splits sum.splits)
  show "blobs w' = blobs w"
    using assms uploadAttachment_effect(4)
    by (fastforce simp: upload_step_def split: option.splits if_splits prod.splits sum.splits)
qed

definition placed_remotely :: "attachment \<Rightarrow> bool" where
  "placed_remotely a \<longleftrightarrow> att_file a = None \<and> dataUrl a = None"

lemma upload_all_effect:
  "upload_all e i atts w = (rs, atts', w') \<Longrightarrow>
     (\<exists>evs. trace w' = trace w @ evs \<and> \<not> list_ex is_doc_set evs
        \<and> (rs = None \<longrightarrow>
              evs = map UploadCompleted (map (upload_path i) (filter raw_payload atts))
              \<and> upload_path i ` set (filter raw_payload atts) \<subseteq> dom (objects w')
              \<and> list_all placed_remotely atts'))
     \<and> dom (objects w) \<subseteq> dom (objects w') \<and> docs w' = docs w \<and> blobs w' = blobs w
     \<and> length atts' = length atts"
proof (induction atts arbitrary: w rs atts' w')
  case Nil
  then show ?case by auto
next
  case (Cons att atts)
  obtain st w1 where s1: "upload_step e i att w = (st, w1)" by (cases "upload_step e i att w")
  note eff = upload_step_effect [OF s1]
  from eff(1) obtain evs1 where e1: "trace w1 = trace w @ evs1" "\<not> list_ex is_doc_set evs1"
    "\<forall>att'. st = Settled None att' \<longrightarrow>
        evs1 = (if raw_payload att then [UploadCompleted (upload_path i att)] else [])
        \<and> (raw_payload att \<longrightarrow> upload_path i att \<in> dom (objects w1))
        \<and> att_file att' = None \<and> dataUrl att' = None"
    by blast
  show ?case
  proof (cases st)
    case Threw
    with Cons.prems s1 have "rs = Some DecodeError" "atts' = att # atts" "w' = w1"
      by auto
    with e1 eff(2,3,4) show ?thesis by auto
  next
    case (Settled r att')
    obtain r2 atts2 w2 where s2: "upload_all e i atts w1 = (r2, atts2, w2)"
      by (cases "upload_all e i atts w1")
    from Cons.IH [OF s2] obtain evs2 where e2: "trace w2 = trace w1 @ evs2"
      "\<not> list_ex is_doc_set evs2"
      "r2 = None \<longrightarrow>
          evs2 = map UploadCompleted (map (upload_path i) (filter raw_payload atts))
          \<and> upload_path i ` set (filter raw_payload atts) \<subseteq> dom (objects w2)
          \<and> list_all placed_remotely atts2"
      and rest: "dom (objects w1) \<subseteq> dom (objects w2)" "docs w2 = docs w1" "blobs w2 = blobs w1"
        "length atts2 = length atts"
      by blast
    from Cons.prems s1 s2 Settled have out: "w' = w2" "atts' = att' # atts2"
      and rs: "rs = (if r2 = Some DecodeError then r2 else if r = None then r2 else r)"
      by auto
    have "\<exists>evs. trace w' = trace w @ evs \<and> \<not> list_ex is_doc_set evs
        \<and> (rs = None \<longrightarrow>
              evs = map UploadCompleted (map (upload_path i) (filter raw_payload (att # atts)))
              \<and> upload_path i ` set (filter raw_payload (att # atts)) \<subseteq> dom (objects w')
              \<and> list_all placed_remotely atts')"
    proof (intro exI [of _ "evs1 @ evs2"] conjI impI)
      show "trace w' = trace w @ evs1 @ evs2" using out e1(1) e2(1) by simp
      show "\<not> list_ex is_doc_set (evs1 @ evs2)" using e1(2) e2(2) by (auto simp: list_ex_iff)
    next
      assume "rs = None"
      with rs have r: "r = None" and r2: "r2 = None"
        by (auto split: if_splits)
      from r Settled e1(3) have h1:
        "evs1 = (if raw_payload att then [UploadCompleted (upload_path i att)] else [])"
        "raw_payload att \<longrightarrow> upload_path i att \<in> dom (objects w1)"
        "att_file att' = None" "dataUrl att' = None"
        by auto
      show "evs1 @ evs2 = map UploadCompleted (map (upload_path i) (filter raw_payload (att # atts)))"
        using h1(1) r2 e2(3) by simp
      show "upload_path i ` set (filter raw_payload (att # atts)) \<subseteq> dom (objects w')"
        using h1(2) r2 e2(3) rest(1) out by auto
      show "list_all placed_remotely atts'"
        using h1(3,4) r2 e2(3) out by (simp add: placed_remotely_def)
    qed
    moreover have "dom (objects w) \<subseteq> dom (objects w')" using eff(2) rest(1) out by blast
    moreover have "docs w' = docs w" "blobs w' = blobs w" "length atts' = length (att # atts)"
      using eff(3,4) rest out by simp_all
    ultimately show ?thesis by blast
  qed
qed

lemma upload_step_noop:
  "placed_remotely att \<Longrightarrow> upload_step e i att w = (Settled None att, w)"
  by (cases att) (simp add: placed_remotely_def upload_step_def truthy_def)

lemma upload_all_noop:
  "list_all placed_remotely atts \<Longrightarrow> upload_all e i atts w = (None, atts, w)"
  by (induction atts) (simp_all add: upload_step_noop)

lemma saveReport_remote_order:
  assumes "saveReport_remote e r w = (res, r', w')"
    and "list_ex is_doc_set (events_since w w')"
  shows "events_since w w' = map UploadCompleted (upload_paths r) @ [DocSetIssued (rid r)]
         \<and> set (upload_paths r) \<subseteq> dom (objects w')"
proof (cases "attachments r = []")
  case True
  with assms(1) obtain r0 where "doc_set e (rid r) r w = (r0, w')"
    by (auto simp: saveReport_remote_def prepareForFirestore_remote_def split: prod.splits sum.splits)
  from doc_set_trace [OF this] True show ?thesis
    by (simp add: upload_paths_def)
next
  case False
  obtain rs atts1 w1 where s1: "upload_all e (rid r) (attachments r) w = (rs, atts1, w1)"
    by (cases "upload_all e (rid r) (attachments r) w")
  from upload_all_effect [OF s1] obtain evs1 where e1:
    "trace w1 = trace w @ evs1" "\<not> list_ex is_doc_set evs1"
    "rs = None \<longrightarrow> evs1 = map UploadCompleted (upload_paths r)
        \<and> set (upload_paths r) \<subseteq> dom (objects w1)"
    unfolding upload_paths_def by auto
  show ?thesis
  proof (cases rs)
    case (Some err)
    with assms(1) s1 False have "w' = w1"
      by (simp add: saveReport_remote_def prepareForFirestore_remote_def)
    with e1 assms(2) show ?thesis by simp
  next
    case None
    with assms(1) s1 False obtain r0 where
      "doc_set e (rid r) (r\<lparr>attachments := atts1\<rparr>) w1 = (r0, w')"
      by (auto simp: saveReport_remote_def prepareForFirestore_remote_def
          split: prod.splits sum.splits)
    from doc_set_trace [OF this] e1 None show ?thesis by simp
  qed
qed

definition file_att :: attachment where
  "file_att = \<lparr>name = ''photo.png'', type = Some ''image/png'', att_size = 7,
     dataUrl = None, textContent = None, att_file = Some ''PNGDATA'',
     storageUrl = None, storagePath = None\<rparr>"

definition report3 :: report where
  "report3 = \<lparr>rid = ''RPT-2024-0003'', date = ''2024-06-03'', descriptive = [],
     attachments = [file_att, small_att]\<rparr>"

definition world3 :: world where
  "world3 = snd (snd (saveReport_remote env_ok report3 world0))"

definition stored3 :: report where
  "stored3 = report3\<lparr>attachments :=
     [file_att\<lparr>att_file := None,
        storageUrl := Some ''https://storage/attachments/RPT-2024-0003/photo.png'',
        storagePath := Some ''attachments/RPT-2024-0003/photo.png''\<rparr>,
      small_att\<lparr>dataUrl := None,
        storageUrl := Some ''https://storage/attachments/RPT-2024-0003/note.txt'',
        storagePath := Some ''attachments/RPT-2024-0003/note.txt''\<rparr>]\<rparr>"

lemma saveReport_remote_report3:
  "saveReport_remote env_ok report3 world0 =
     (Inr stored3, stored3,
      \<lparr>docs = [''RPT-2024-0003'' \<mapsto> stored3], blobs = Map.empty,
       objects = [''attachments/RPT-2024-0003/photo.png'' \<mapsto> ''PNGDATA'',
                  ''attachments/RPT-2024-0003/note.txt'' \<mapsto> ''data:text/plain;base64,YWJj''],
       trace = [UploadCompleted ''attachments/RPT-2024-0003/photo.png'',
                UploadCompleted ''attachments/RPT-2024-0003/note.txt'',
                DocSetIssued ''RPT-2024-0003'']\<rparr>)"
  by (simp add: saveReport_remote_def prepareForFirestore_remote_def report3_def stored3_def
      file_att_def small_att_def upload_step_def uploadAttachment_def uploaded_def truthy_def
      env_ok_def world0_def log_def doc_set_def Let_def)

lemma world3_eq:
  "world3 = \<lparr>docs = [''RPT-2024-0003'' \<mapsto> stored3], blobs = Map.empty,
       objects = [''attachments/RPT-2024-0003/photo.png'' \<mapsto> ''PNGDATA'',
                  ''attachments/RPT-2024-0003/note.txt'' \<mapsto> ''data:text/plain;base64,YWJj''],
       trace = [UploadCompleted ''attachments/RPT-2024-0003/photo.png'',
                UploadCompleted ''attachments/RPT-2024-0003/note.txt'',
                DocSetIssued ''RPT-2024-0003'']\<rparr>"
  by (simp add: world3_def saveReport_remote_report3)

text \<open>
  Claim C2. In both modules the document write of \<^verbatim>\<open>saveReport\<close> is issued in the
  callback of the promise that joins the writes of the blob tier. So when a call to
  \<^verbatim>\<open>saveReport\<close> issues the document write at all, the events of the call are the
  completion of every local put (of every upload) that the placement asks for, followed
  by the document write, and the keys (paths) of these writes are in the store.
\<close>

theorem tier_writes_precede_document_write:
  "(saveReport_local e r w = (res, w') \<and> list_ex is_doc_set (events_since w w') \<longrightarrow>
      events_since w w' = map (BlobPutCompleted \<circ> fst) (blob_puts r) @ [DocSetIssued (rid r)]
      \<and> fst ` set (blob_puts r) \<subseteq> dom (blobs w'))
   \<and> (saveReport_remote e r w = (res', r', w'') \<and> list_ex is_doc_set (events_since w w'') \<longrightarrow>
      events_since w w'' = map UploadCompleted (upload_paths r) @ [DocSetIssued (rid r)]
      \<and> set (upload_paths r) \<subseteq> dom (objects w''))"
  using saveReport_local_order [of e r w res w'] saveReport_remote_order [of e r w res' r' w'']
  by blast

theorem tier_writes_precede_document_write_witness:
  "events_since world0 world1
     = [BlobPutCompleted ''RPT-2024-0001_att_1'', DocSetIssued ''RPT-2024-0001'']
   \<and> ''RPT-2024-0001_att_1'' \<in> dom (blobs world1)
   \<and> events_since world0 world3
     = [UploadCompleted ''attachments/RPT-2024-0003/photo.png'',
        UploadCompleted ''attachments/RPT-2024-0003/note.txt'',
        DocSetIssued ''RPT-2024-0003'']
   \<and> ''attachments/RPT-2024-0003/photo.png'' \<in> dom (objects world3)"
proof -
  have l: "saveReport_local env_ok report1 world0 = (Inr (), world1)"
    by (simp add: world1_def saveReport_local_def prepareForFirestore_local_def
        blob_puts_report1 saveBlobLocal_def env_ok_def world0_def log_def doc_set_def)
  have r: "saveReport_remote env_ok report3 world0 = (Inr stored3, stored3, world3)"
    by (simp add: world3_def saveReport_remote_report3)
  have el: "list_ex is_doc_set (events_since world0 world1)"
    by (simp add: world1_eq world0_def events_since_def is_doc_set_def)
  have er: "list_ex is_doc_set (events_since world0 world3)"
    by (simp add: world3_eq world0_def events_since_def is_doc_set_def)
  have p: "upload_paths report3
      = [''attachments/RPT-2024-0003/photo.png'', ''attachments/RPT-2024-0003/note.txt'']"
    by (simp add: upload_paths_def report3_def file_att_def small_att_def raw_payload_def
        truthy_def upload_path_def)
  from tier_writes_precede_document_write [of env_ok report1 world0 "Inr ()" world1]
    tier_writes_precede_document_write [of env_ok report3 world0 _ _ "Inr stored3" stored3 world3]
    l r el er
  show ?thesis
    by (simp add: blob_puts_report1 p) (simp add: report1_def report3_def)
qed


section \<open>Deleting a report\<close>

lemma deleteAttachment_effect:
  assumes "deleteAttachment e sp w = (res, w')"
  shows "docs w' = docs w" and "blobs w' = blobs w"
    and "objects w q = None \<Longrightarrow> objects w' q = None"
    and "res = Inr () \<Longrightarrow> sp = Some p \<Longrightarrow> p \<noteq> [] \<Longrightarrow> objects w' p = None"
  using assms
  by (auto simp: deleteAttachment_def log_def split: option.splits if_splits)

lemma delete_all_effect:
  "delete_all e sps w = (rs, w') \<Longrightarrow>
     docs w' = docs w \<and> blobs w' = blobs w
     \<and> (\<forall>q. objects w q = None \<longrightarrow> objects w' q = None)
     \<and> (rs = None \<longrightarrow> (\<forall>p. Some p \<in> set sps \<and> p \<noteq> [] \<longrightarrow> objects w' p = None))"
proof (induction sps arbitrary: w rs w')
  case Nil
  then show ?case by auto
next
  case (Cons sp sps)
  obtain r1 w1 where s1: "deleteAttachment e sp w = (r1, w1)"
    by (cases "deleteAttachment e sp w")
  obtain r2 w2 where s2: "delete_all e sps w1 = (r2, w2)"
    by (cases "delete_all e sps w1")
  note e1 = deleteAttachment_effect [OF s1]
  from Cons.IH [OF s2] have e2: "docs w2 = docs w1" "blobs w2 = blobs w1"
    "\<And>q. objects w1 q = None \<Longrightarrow> objects w2 q = None"
    "r2 = None \<Longrightarrow> (\<forall>p. Some p \<in> set sps \<and> p \<noteq> [] \<longrightarrow> objects w2 p = None)"
    by auto
  from Cons.prems s1 s2 have out: "w' = w2"
    and rs: "rs = (case r1 of Inl err \<Rightarrow> Some err | Inr u \<Rightarrow> r2)"
    by (auto split: sum.splits)
  have "rs = None \<longrightarrow> (\<forall>p. Some p \<in> set (sp # sps) \<and> p \<noteq> [] \<longrightarrow> objects w' p = None)"
  proof (intro impI allI)
    fix p assume ok: "rs = None" and p: "Some p \<in> set (sp # sps) \<and> p \<noteq> []"
    from ok rs have r1: "r1 = Inr ()" and r2: "r2 = None"
      by (auto split: sum.splits)
    from p show "objects w' p = None"
    proof (cases "sp = Some p")
      case True
      with e1(4) [OF r1] p have "objects w1 p = None" by simp
      with e2(3) out show ?thesis by simp
    next
      case False
      with p have "Some p \<in> set sps" by simp
      with e2(4) [OF r2] p out show ?thesis by simp
    qed
  qed
  with e1(1,2,3) e2(1,2,3) out show ?case by simp
qed

lemma doc_delete_effect:
  assumes "doc_delete e i w = (res, w')"
  shows "blobs w' = blobs w" and "objects w' = objects w"
    and "res = Inr () \<Longrightarrow> docs w' = (docs w)(i := None)"
  using assms by (auto simp: doc_delete_def log_def split: if_splits)

lemma deleteReport_remote_removes:
  assumes "deleteReport_remote e i w = (Inr (), w')"
  shows "docs w' i = None"
    and "docs w i = Some d \<Longrightarrow> att \<in> set (attachments d) \<Longrightarrow> storagePath att = Some p
           \<Longrightarrow> p \<noteq> [] \<Longrightarrow> objects w' p = None"
proof -
  from assms have g: "doc_get e i w = Inr (docs w i)"
    by (auto simp: deleteReport_remote_def doc_get_def split: if_splits)
  obtain rs w1 where s1: "delete_all e (storage_paths (docs w i)) w = (rs, w1)"
    by (cases "delete_all e (storage_paths (docs w i)) w")
  obtain r2 w2 where s2: "doc_delete e i w1 = (r2, w2)"
    by (cases "doc_delete e i w1")
  from assms g s1 s2 have out: "w' = w2" "rs = None" "r2 = Inr ()"
    by (auto simp: deleteReport_remote_def split: option.splits)
  note e1 = delete_all_effect [OF s1]
  note e2 = doc_delete_effect [OF s2]
  show "docs w' i = None" using e2(3) out by simp
  show "objects w' p = None"
    if "docs w i = Some d" "att \<in> set (attachments d)" "storagePath att = Some p" "p \<noteq> []"
  proof -
    from that have "Some p \<in> set (storage_paths (docs w i))"
      by (force simp: storage_paths_def truthy_def)
    with e1 out that(4) have "objects w1 p = None" by blast
    with e2(2) out show ?thesis by simp
  qed
qed

lemma deleteReport_local_effect:
  assumes "deleteReport_local e i w = (Inr (), w')"
  shows "docs w' i = None \<and> blobs w' = blobs w \<and> objects w' = objects w"
  using doc_delete_effect [of e i w "Inr ()" w'] assms
  by (simp add: deleteReport_local_def)

text \<open>
  The module with the IndexedDB fallback deletes the document and nothing else; it has no
  function that deletes from the local store. The report of the first example, stored
  with the reference \<^verbatim>\<open>local:RPT-2024-0001_att_1\<close>, is deleted with success, and the
  payload is still in the local store under that key.
\<close>

theorem delete_leaves_local_overflow:
  "dataUrl (attachments (the (docs world1 ''RPT-2024-0001'')) ! 1)
     = Some ''local:RPT-2024-0001_att_1''
   \<and> fst (deleteReport_local env_ok ''RPT-2024-0001'' world1) = Inr ()
   \<and> docs (snd (deleteReport_local env_ok ''RPT-2024-0001'' world1)) ''RPT-2024-0001'' = None
   \<and> blobs (snd (deleteReport_local env_ok ''RPT-2024-0001'' world1)) ''RPT-2024-0001_att_1''
     = Some (replicate 800001 (CHR ''A''))"
  by (simp add: world1_eq cleaned_local_report1 deleteReport_local_def doc_delete_def
      env_ok_def log_def)

text \<open>
  Claim C4, as the code has it. When \<^verbatim>\<open>deleteReport\<close> of the Storage module reports
  success, the document is gone and so is the Storage object of every storage path that
  the stored document referenced. When \<^verbatim>\<open>deleteReport\<close> of the module with the
  IndexedDB fallback reports success, the document is gone and the local store is as it
  was.
\<close>

theorem delete_removes_document_and_remote_blobs:
  "(deleteReport_remote e i w = (Inr (), w') \<longrightarrow>
      docs w' i = None
      \<and> (\<forall>d att p. docs w i = Some d \<and> att \<in> set (attachments d)
            \<and> storagePath att = Some p \<and> p \<noteq> [] \<longrightarrow> objects w' p = None))
   \<and> (deleteReport_local e i w = (Inr (), w'') \<longrightarrow>
      docs w'' i = None \<and> blobs w'' = blobs w)"
  using deleteReport_remote_removes [of e i w w'] deleteReport_local_effect [of e i w w'']
  by blast

definition world4 :: world where
  "world4 = snd (deleteReport_remote env_ok ''RPT-2024-0003'' world3)"

lemma world4_eq:
  "world4 = \<lparr>docs = Map.empty, blobs = Map.empty, objects = Map.empty,
     trace = [UploadCompleted ''attachments/RPT-2024-0003/photo.png'',
              UploadCompleted ''attachments/RPT-2024-0003/note.txt'',
              DocSetIssued ''RPT-2024-0003'',
              ObjectDeleted ''attachments/RPT-2024-0003/photo.png'',
              ObjectDeleted ''attachments/RPT-2024-0003/note.txt'',
              DocDeleteIssued ''RPT-2024-0003'']\<rparr>"
  by (simp add: world4_def deleteReport_remote_def doc_get_def world3_eq stored3_def
      storage_paths_def truthy_def deleteAttachment_def doc_delete_def env_ok_def log_def
      report3_def file_att_def small_att_def)

theorem delete_removes_document_and_remote_blobs_witness:
  "docs world4 ''RPT-2024-0003'' = None
   \<and> objects world4 ''attachments/RPT-2024-0003/photo.png'' = None
   \<and> objects world4 ''attachments/RPT-2024-0003/note.txt'' = None
   \<and> docs (snd (deleteReport_local env_ok ''RPT-2024-0001'' world1)) ''RPT-2024-0001'' = None
   \<and> blobs (snd (deleteReport_local env_ok ''RPT-2024-0001'' world1)) = blobs world1"
proof -
  have r: "deleteReport_remote env_ok ''RPT-2024-0003'' world3 = (Inr (), world4)"
    by (simp add: world4_def deleteReport_remote_def doc_get_def world3_eq stored3_def
      storage_paths_def truthy_def deleteAttachment_def doc_delete_def env_ok_def log_def
      report3_def file_att_def small_att_def)
  have l: "deleteReport_local env_ok ''RPT-2024-0001'' world1
      = (Inr (), snd (deleteReport_local env_ok ''RPT-2024-0001'' world1))"
    by (simp add: deleteReport_local_def doc_delete_def env_ok_def)
  have d: "docs world3 ''RPT-2024-0003'' = Some stored3"
    by (simp add: world3_eq)
  have a: "attachments stored3 ! 0 \<in> set (attachments stored3)"
      "attachments stored3 ! 1 \<in> set (attachments stored3)"
      "storagePath (attachments stored3 ! 0) = Some ''attachments/RPT-2024-0003/photo.png''"
      "storagePath (attachments stored3 ! 1) = Some ''attachments/RPT-2024-0003/note.txt''"
    by (simp_all add: stored3_def)
  from delete_removes_document_and_remote_blobs
    [of env_ok "''RPT-2024-0003''" world3 world4] r
  have "docs world4 ''RPT-2024-0003'' = None"
    and o: "\<And>d att p. docs world3 ''RPT-2024-0003'' = Some d \<Longrightarrow> att \<in> set (attachments d)
            \<Longrightarrow> storagePath att = Some p \<Longrightarrow> p \<noteq> [] \<Longrightarrow> objects world4 p = None"
    by blast+
  moreover from o [OF d a(1) a(3)] o [OF d a(2) a(4)]
  have "objects world4 ''attachments/RPT-2024-0003/photo.png'' = None"
    "objects world4 ''attachments/RPT-2024-0003/note.txt'' = None"
    by simp_all
  moreover from delete_removes_document_and_remote_blobs
    [of env_ok "''RPT-2024-0001''" world1 _
      "snd (deleteReport_local env_ok ''RPT-2024-0001'' world1)"] l
  have "docs (snd (deleteReport_local env_ok ''RPT-2024-0001'' world1)) ''RPT-2024-0001'' = None
   \<and> blobs (snd (deleteReport_local env_ok ''RPT-2024-0001'' world1)) = blobs world1"
    by blast
  ultimately show ?thesis by blast
qed


section \<open>Saving a report twice\<close>

lemma saveBlobLocal_others:
  "saveBlobLocal e k d w = (res, w') \<Longrightarrow> docs w' = docs w \<and> objects w' = objects w"
  by (auto simp: saveBlobLocal_def log_def split: if_splits)

lemma all_puts_others:
  "all_puts e ps w = (res, w') \<Longrightarrow> docs w' = docs w \<and> objects w' = objects w"
proof (induction ps arbitrary: w res w')
  case Nil
  then show ?case by simp
next
  case (Cons p ps)
  obtain k d where p: "p = (k, d)" by (cases p)
  obtain r1 w1 where s1: "saveBlobLocal e k d w = (r1, w1)" by (cases "saveBlobLocal e k d w")
  obtain r2 w2 where s2: "all_puts e ps w1 = (r2, w2)" by (cases "all_puts e ps w1")
  from Cons.prems p s1 s2 have "w' = w2" by (auto split: sum.splits)
  with saveBlobLocal_others [OF s1] Cons.IH [OF s2] show ?case by simp
qed

lemma all_puts_again:
  "all_puts e ps w = (res, w') \<Longrightarrow> \<forall>(k, d) \<in> set ps. blobs w k = Some d \<Longrightarrow> blobs w' = blobs w"
proof (induction ps arbitrary: w res w')
  case Nil
  then show ?case by simp
next
  case (Cons p ps)
  obtain k d where p: "p = (k, d)" by (cases p)
  obtain r1 w1 where s1: "saveBlobLocal e k d w = (r1, w1)" by (cases "saveBlobLocal e k d w")
  obtain r2 w2 where s2: "all_puts e ps w1 = (r2, w2)" by (cases "all_puts e ps w1")
  from Cons.prems(2) p have "blobs w k = Some d" by simp
  then have "(blobs w)(k \<mapsto> d) = blobs w" by (rule map_upd_triv)
  with s1 have b1: "blobs w1 = blobs w"
    by (auto simp: saveBlobLocal_def log_def split: if_splits)
  with Cons.prems(2) have "\<forall>(k, d) \<in> set ps. blobs w1 k = Some d" by simp
  from Cons.IH [OF s2 this] b1 have "blobs w2 = blobs w" by simp
  moreover from Cons.prems(1) p s1 s2 have "w' = w2" by (auto split: sum.splits)
  ultimately show ?case by simp
qed

lemma saveReport_local_success:
  assumes "saveReport_local e r w = (Inr (), w1)"
  shows "docs w1 = (docs w)(rid r \<mapsto> cleaned_local r)"
    and "\<forall>(k, d) \<in> set (blob_puts r). blobs w1 k = Some d"
proof -
  from assms obtain w0 where p: "prepareForFirestore_local e r w = (Inr (cleaned_local r), w0)"
    and s: "doc_set e (rid r) (cleaned_local r) w0 = (Inr (), w1)"
    by (auto simp: saveReport_local_def prepareForFirestore_local_def split: prod.splits sum.splits)
  from p obtain u where a: "all_puts e (blob_puts r) w = (Inr u, w0)"
    by (auto simp: prepareForFirestore_local_def split: prod.splits sum.splits)
  from s have d: "docs w1 = (docs w0)(rid r \<mapsto> cleaned_local r)" "blobs w1 = blobs w0"
    by (auto simp: doc_set_def log_def split: if_splits)
  with all_puts_others [OF a] show "docs w1 = (docs w)(rid r \<mapsto> cleaned_local r)" by simp
  show "\<forall>(k, d) \<in> set (blob_puts r). blobs w1 k = Some d"
  proof (clarify)
    fix k d assume kd: "(k, d) \<in> set (blob_puts r)"
    then obtain j where j: "j < length (attachments r)" "dataUrl (attachments r ! j) = Some d"
      "MAX_INLINE_SIZE < length d" "k = blobKey (rid r) j"
      unfolding blob_puts_iff by blast
    from prepare_local_stores_payload [OF p j(1,2,3)] j(4) d(2) show "blobs w1 k = Some d"
      by simp
  qed
qed

lemma doc_set_again:
  "doc_set e i d w = (res, w') \<Longrightarrow> docs w i = Some d \<Longrightarrow> docs w' = docs w"
  by (auto simp: doc_set_def log_def split: if_splits)

lemma saveReport_local_issued:
  assumes "saveReport_local e r w = (Inr (), w')"
  shows "list_ex is_doc_set (events_since w w')"
proof -
  from assms obtain u w0 where a: "all_puts e (blob_puts r) w = (Inr u, w0)"
    and s: "doc_set e (rid r) (cleaned_local r) w0 = (Inr (), w')"
    by (auto simp: saveReport_local_def prepareForFirestore_local_def split: prod.splits sum.splits)
  from all_puts_trace [OF a] obtain evs where "trace w0 = trace w @ evs" by blast
  with doc_set_trace [OF s] have "trace w' = trace w @ evs @ [DocSetIssued (rid r)]" by simp
  then have "events_since w w' = evs @ [DocSetIssued (rid r)]" by (rule events_since_append)
  then show ?thesis by (simp add: is_doc_set_def)
qed

lemma saveReport_local_twice:
  assumes first: "saveReport_local e1 r w = (Inr (), w1)"
    and second: "saveReport_local e2 r w1 = (res2, w2)"
  shows "docs w2 = docs w1" and "blobs w2 = blobs w1"
    and "res2 = Inr () \<Longrightarrow>
       events_since w1 w2 = map (BlobPutCompleted \<circ> fst) (blob_puts r) @ [DocSetIssued (rid r)]"
proof -
  note f = saveReport_local_success [OF first]
  obtain ra wa where a: "all_puts e2 (blob_puts r) w1 = (ra, wa)"
    by (cases "all_puts e2 (blob_puts r) w1")
  note o = all_puts_others [OF a]
  note b = all_puts_again [OF a f(2)]
  have stored: "docs w1 (rid r) = Some (cleaned_local r)" using f(1) by simp
  show "docs w2 = docs w1" "blobs w2 = blobs w1"
  proof -
    have "docs w2 = docs w1 \<and> blobs w2 = blobs w1"
    proof (cases ra)
      case (Inl err)
      with second a have "w2 = wa"
        by (simp add: saveReport_local_def prepareForFirestore_local_def)
      with o b show ?thesis by simp
    next
      case (Inr u)
      with second a have s: "doc_set e2 (rid r) (cleaned_local r) wa = (res2, w2)"
        by (simp add: saveReport_local_def prepareForFirestore_local_def)
      from doc_set_again [OF s] stored o have "docs w2 = docs wa" by simp
      moreover from doc_set_trace [OF s] have "blobs w2 = blobs wa" by simp
      ultimately show ?thesis using o b by simp
    qed
    then show "docs w2 = docs w1" "blobs w2 = blobs w1" by simp_all
  qed
  show "events_since w1 w2 = map (BlobPutCompleted \<circ> fst) (blob_puts r) @ [DocSetIssued (rid r)]"
    if "res2 = Inr ()"
  proof -
    from that second have "list_ex is_doc_set (events_since w1 w2)"
      by (simp add: saveReport_local_issued)
    from saveReport_local_order [OF second this] show ?thesis by simp
  qed
qed

lemma saveReport_remote_twice:
  assumes first: "saveReport_remote e1 r w = (Inr c, r1, w1)"
    and second: "saveReport_remote e2 r1 w1 = (res2, r2, w2)"
  shows "events_since w w1 = map UploadCompleted (upload_paths r) @ [DocSetIssued (rid r)]"
    and "events_since w1 w2 = [DocSetIssued (rid r)]"
    and "r2 = r1" and "docs w1 (rid r) = Some c"
    and "docs w2 = docs w1" and "objects w2 = objects w1"
proof -
  obtain rs atts1 wa where u: "upload_all e1 (rid r) (attachments r) w = (rs, atts1, wa)"
    by (cases "upload_all e1 (rid r) (attachments r) w")
  have prep: "prepareForFirestore_remote e1 r w = (Inr c, r1, wa') \<Longrightarrow>
      c = r1 \<and> rid r1 = rid r \<and> list_all placed_remotely (attachments r1)" for wa'
    using u upload_all_effect [OF u]
    by (auto simp: prepareForFirestore_remote_def split: if_splits option.splits)
  from first obtain wa' where p1: "prepareForFirestore_remote e1 r w = (Inr c, r1, wa')"
    and s1: "doc_set e1 (rid r) c wa' = (Inr (), w1)"
    by (auto simp: saveReport_remote_def split: prod.splits sum.splits)
  from prep [OF p1] have c: "c = r1" and i: "rid r1 = rid r"
    and pl: "list_all placed_remotely (attachments r1)"
    by simp_all
  from s1 show stored: "docs w1 (rid r) = Some c"
    by (auto simp: doc_set_def log_def split: if_splits)
  have "list_ex is_doc_set (events_since w w1)"
  proof -
    have "\<exists>evs. trace wa' = trace w @ evs"
      using p1 u upload_all_effect [OF u]
      by (auto simp: prepareForFirestore_remote_def split: if_splits option.splits)
    then obtain evs where "trace wa' = trace w @ evs" by blast
    with doc_set_trace [OF s1] have "trace w1 = trace w @ evs @ [DocSetIssued (rid r)]" by simp
    then have "events_since w w1 = evs @ [DocSetIssued (rid r)]" by (rule events_since_append)
    then show ?thesis by (simp add: is_doc_set_def)
  qed
  from saveReport_remote_order [OF first this]
  show "events_since w w1 = map UploadCompleted (upload_paths r) @ [DocSetIssued (rid r)]"
    by simp
  have p2: "prepareForFirestore_remote e2 r1 w1 = (Inr r1, r1, w1)"
    using pl by (simp add: prepareForFirestore_remote_def upload_all_noop)
  with second obtain rd where s2: "doc_set e2 (rid r) r1 w1 = (rd, w2)" and r2: "r2 = r1"
    using i by (auto simp: saveReport_remote_def split: prod.splits sum.splits)
  show "r2 = r1" by (rule r2)
  from doc_set_trace [OF s2] show "events_since w1 w2 = [DocSetIssued (rid r)]"
    and "objects w2 = objects w1"
    by simp_all
  from doc_set_again [OF s2] stored c show "docs w2 = docs w1" by simp
qed

text \<open>
  What a successful upload step makes of an attachment: one that carries a File object or
  a dataUrl without a storage URL gets the download URL and the path of its upload as its
  locator and loses the raw payload; any other is left as it is, without raw payload.
\<close>

definition placed_from :: "env \<Rightarrow> string \<Rightarrow> attachment \<Rightarrow> attachment \<Rightarrow> bool" where
  "placed_from e i att att' =
     (if raw_payload att
      then obj_url e (upload_path i att) \<noteq> None
         \<and> att' = att\<lparr>storageUrl := obj_url e (upload_path i att),
                        storagePath := Some (upload_path i att),
                        att_file := None, dataUrl := None\<rparr>
      else att' = att\<lparr>att_file := None, dataUrl := None\<rparr>)"

lemma uploadAttachment_result:
  "uploadAttachment e i n f w = (Inr res, w') \<Longrightarrow>
     obj_url e (''attachments/'' @ i @ ''/'' @ n) = Some (fst res)
     \<and> snd res = ''attachments/'' @ i @ ''/'' @ n"
  by (auto simp: uploadAttachment_def Let_def split: if_splits option.splits)

lemma upload_step_placed:
  assumes "upload_step e i att w = (Settled None att', w')"
  shows "placed_from e i att att'"
proof (cases "att_file att")
  case (Some f)
  with assms obtain res where u: "uploadAttachment e i (name att) f w = (Inr res, w')"
    and a: "att' = (uploaded att res)\<lparr>att_file := None, dataUrl := None\<rparr>"
    by (auto simp: upload_step_def split: prod.splits sum.splits)
  from uploadAttachment_result [OF u] a Some show ?thesis
    by (cases att) (simp add: placed_from_def raw_payload_def upload_path_def uploaded_def)
next
  case None
  show ?thesis
  proof (cases "truthy (dataUrl att) \<and> \<not> truthy (storageUrl att)")
    case False
    with assms None show ?thesis
      by (auto simp: upload_step_def placed_from_def raw_payload_def)
  next
    case True
    with assms None obtain blob res where
      u: "uploadAttachment e i (name att) blob w = (Inr res, w')"
      and a: "att' = (uploaded att res)\<lparr>dataUrl := None\<rparr>"
      by (auto simp: upload_step_def split: option.splits prod.splits sum.splits)
    from uploadAttachment_result [OF u] a None True show ?thesis
      by (cases att) (simp add: placed_from_def raw_payload_def upload_path_def uploaded_def)
  qed
qed

lemma upload_all_placed:
  "upload_all e i atts w = (None, atts', w') \<Longrightarrow> list_all2 (placed_from e i) atts atts'"
proof (induction atts arbitrary: w atts' w')
  case Nil
  then show ?case by simp
next
  case (Cons att atts)
  obtain st w1 where s1: "upload_step e i att w = (st, w1)" by (cases "upload_step e i att w")
  show ?case
  proof (cases st)
    case Threw
    with Cons.prems s1 show ?thesis by simp
  next
    case (Settled r a1)
    obtain r2 atts2 w2 where s2: "upload_all e i atts w1 = (r2, atts2, w2)"
      by (cases "upload_all e i atts w1")
    from Cons.prems s1 s2 Settled have out: "atts' = a1 # atts2" "r = None" "r2 = None"
      by (auto split: if_splits)
    from upload_step_placed [of e i att w a1 w1] s1 Settled out
    have "placed_from e i att a1" by simp
    moreover from Cons.IH [of w1 atts2 w2] s2 out have "list_all2 (placed_from e i) atts atts2"
      by simp
    ultimately show ?thesis using out by simp
  qed
qed

lemma saveReport_remote_locators:
  assumes "saveReport_remote e r w = (Inr c, r1, w1)"
  shows "c = r1" and "list_all2 (placed_from e (rid r)) (attachments r) (attachments r1)"
proof -
  have "c = r1 \<and> list_all2 (placed_from e (rid r)) (attachments r) (attachments r1)"
  proof (cases "attachments r = []")
    case True
    with assms show ?thesis
      by (auto simp: saveReport_remote_def prepareForFirestore_remote_def
          split: prod.splits sum.splits)
  next
    case False
    obtain rs atts1 wa where u: "upload_all e (rid r) (attachments r) w = (rs, atts1, wa)"
      by (cases "upload_all e (rid r) (attachments r) w")
    with assms False have "rs = None" "c = r\<lparr>attachments := atts1\<rparr>" "r1 = r\<lparr>attachments := atts1\<rparr>"
      by (auto simp: saveReport_remote_def prepareForFirestore_remote_def
          split: prod.splits sum.splits option.splits)
    with upload_all_placed [of e "rid r" "attachments r" w atts1 wa] u show ?thesis
      by simp
  qed
  then show "c = r1" and "list_all2 (placed_from e (rid r)) (attachments r) (attachments r1)"
    by simp_all
qed


text \<open>
  The module with the IndexedDB fallback prepares a copy and leaves the caller's report
  as it was, dataUrl included: a second save of the first example puts the large
  attachment in the local store a second time.
\<close>

theorem second_save_repeats_local_put:
  "trace (snd (saveReport_local env_ok report1 (snd (saveReport_local env_ok report1 world0))))
     = [BlobPutCompleted ''RPT-2024-0001_att_1'', DocSetIssued ''RPT-2024-0001'',
        BlobPutCompleted ''RPT-2024-0001_att_1'', DocSetIssued ''RPT-2024-0001'']"
proof -
  have "snd (saveReport_local env_ok report1 world0) = world1"
    by (simp add: world1_def)
  then show ?thesis
    by (simp add: world1_eq saveReport_local_def prepareForFirestore_local_def
        blob_puts_report1 saveBlobLocal_def env_ok_def log_def doc_set_def)
      (simp add: report1_def)
qed

text \<open>
  Claim C3, as the code has it. In the Storage module a save that succeeds uploads each
  attachment that carries a File object or a dataUrl without a storage URL once, and
  writes the locator into the caller's own attachment array: such an attachment of the
  report, and of the stored document, now carries the download URL and the path of its
  upload and no raw payload, its object is in the bucket, and every other attachment is
  as it was. A second save of the same report uploads nothing, issues the document write
  only, and leaves the stored document, the Storage objects and the report as they were.
  In the module with the IndexedDB fallback a second save leaves the stored document and
  the local store as they were, the local store holding the payload of every put of the
  report under its key, and when it succeeds it has completed the same local puts again.
\<close>

theorem save_twice_same_document:
  "(saveReport_remote e1 r w = (Inr c, r1, w1) \<and> saveReport_remote e2 r1 w1 = (res2, r2, w2) \<longrightarrow>
      events_since w w1 = map UploadCompleted (upload_paths r) @ [DocSetIssued (rid r)]
      \<and> events_since w1 w2 = [DocSetIssued (rid r)]
      \<and> r2 = r1 \<and> docs w1 (rid r) = Some c \<and> docs w2 = docs w1 \<and> objects w2 = objects w1
      \<and> c = r1 \<and> length (attachments r1) = length (attachments r)
      \<and> set (upload_paths r) \<subseteq> dom (objects w1)
      \<and> (\<forall>j < length (attachments r).
            if raw_payload (attachments r ! j)
            then obj_url e1 (upload_path (rid r) (attachments r ! j)) \<noteq> None
               \<and> attachments r1 ! j
                   = (attachments r ! j)
                       \<lparr>storageUrl := obj_url e1 (upload_path (rid r) (attachments r ! j)),
                        storagePath := Some (upload_path (rid r) (attachments r ! j)),
                        att_file := None, dataUrl := None\<rparr>
            else attachments r1 ! j = (attachments r ! j)\<lparr>att_file := None, dataUrl := None\<rparr>))
   \<and> (saveReport_local e1 r w = (Inr (), v1) \<and> saveReport_local e2 r v1 = (res3, v2) \<longrightarrow>
      docs v1 (rid r) = Some (cleaned_local r) \<and> docs v2 = docs v1 \<and> blobs v2 = blobs v1
      \<and> (\<forall>(k, d) \<in> set (blob_puts r). blobs v2 k = Some d)
      \<and> (res3 = Inr () \<longrightarrow>
            events_since v1 v2
              = map (BlobPutCompleted \<circ> fst) (blob_puts r) @ [DocSetIssued (rid r)]))"
proof (intro conjI impI)
  assume a: "saveReport_remote e1 r w = (Inr c, r1, w1) \<and> saveReport_remote e2 r1 w1 = (res2, r2, w2)"
  then have f: "saveReport_remote e1 r w = (Inr c, r1, w1)"
    and s: "saveReport_remote e2 r1 w1 = (res2, r2, w2)"
    by simp_all
  note t = saveReport_remote_twice [OF f s]
  note l = saveReport_remote_locators [OF f]
  show "events_since w w1 = map UploadCompleted (upload_paths r) @ [DocSetIssued (rid r)]"
    by (rule t(1))
  show "events_since w1 w2 = [DocSetIssued (rid r)]" by (rule t(2))
  show "r2 = r1" by (rule t(3))
  show "docs w1 (rid r) = Some c" by (rule t(4))
  show "docs w2 = docs w1" by (rule t(5))
  show "objects w2 = objects w1" by (rule t(6))
  show "c = r1" by (rule l(1))
  show "length (attachments r1) = length (attachments r)"
    using l(2) by (simp add: list_all2_lengthD)
  have "list_ex is_doc_set (events_since w w1)"
    unfolding t(1) by (simp add: is_doc_set_def)
  from saveReport_remote_order [OF f this] show "set (upload_paths r) \<subseteq> dom (objects w1)"
    by simp
  show "\<forall>j < length (attachments r).
            if raw_payload (attachments r ! j)
            then obj_url e1 (upload_path (rid r) (attachments r ! j)) \<noteq> None
               \<and> attachments r1 ! j
                   = (attachments r ! j)
                       \<lparr>storageUrl := obj_url e1 (upload_path (rid r) (attachments r ! j)),
                        storagePath := Some (upload_path (rid r) (attachments r ! j)),
                        att_file := None, dataUrl := None\<rparr>
            else attachments r1 ! j = (attachments r ! j)\<lparr>att_file := None, dataUrl := None\<rparr>"
  proof (intro allI impI)
    fix j assume "j < length (attachments r)"
    with l(2) have "placed_from e1 (rid r) (attachments r ! j) (attachments r1 ! j)"
      by (simp add: list_all2_nthD)
    then show "if raw_payload (attachments r ! j)
            then obj_url e1 (upload_path (rid r) (attachments r ! j)) \<noteq> None
               \<and> attachments r1 ! j
                   = (attachments r ! j)
                       \<lparr>storageUrl := obj_url e1 (upload_path (rid r) (attachments r ! j)),
                        storagePath := Some (upload_path (rid r) (attachments r ! j)),
                        att_file := None, dataUrl := None\<rparr>
            else attachments r1 ! j = (attachments r ! j)\<lparr>att_file := None, dataUrl := None\<rparr>"
      by (simp add: placed_from_def)
  qed
next
  assume a: "saveReport_local e1 r w = (Inr (), v1) \<and> saveReport_local e2 r v1 = (res3, v2)"
  then have f: "saveReport_local e1 r w = (Inr (), v1)"
    and s: "saveReport_local e2 r v1 = (res3, v2)"
    by simp_all
  note t = saveReport_local_twice [OF f s]
  show "docs v1 (rid r) = Some (cleaned_local r)"
    using saveReport_local_success(1) [OF f] by simp
  show "docs v2 = docs v1" by (rule t(1))
  show "blobs v2 = blobs v1" by (rule t(2))
  show "\<forall>(k, d) \<in> set (blob_puts r). blobs v2 k = Some d"
    using saveReport_local_success(2) [OF f] t(2) by simp
  show "events_since v1 v2 = map (BlobPutCompleted \<circ> fst) (blob_puts r) @ [DocSetIssued (rid r)]"
    if "res3 = Inr ()"
    using t(3) that by simp
qed

definition world3b :: world where
  "world3b = snd (snd (saveReport_remote env_ok stored3 world3))"

definition world1b :: world where
  "world1b = snd (saveReport_local env_ok report1 world1)"

theorem save_twice_same_document_witness:
  "events_since world0 world3
     = [UploadCompleted ''attachments/RPT-2024-0003/photo.png'',
        UploadCompleted ''attachments/RPT-2024-0003/note.txt'',
        DocSetIssued ''RPT-2024-0003'']
   \<and> events_since world3 world3b = [DocSetIssued ''RPT-2024-0003'']
   \<and> docs world3b = docs world3 \<and> objects world3b = objects world3
   \<and> storagePath (attachments (fst (snd (saveReport_remote env_ok report3 world0))) ! 0)
       = Some ''attachments/RPT-2024-0003/photo.png''
   \<and> storageUrl (attachments (fst (snd (saveReport_remote env_ok report3 world0))) ! 0)
       = Some ''https://storage/attachments/RPT-2024-0003/photo.png''
   \<and> att_file (attachments (fst (snd (saveReport_remote env_ok report3 world0))) ! 0) = None
   \<and> docs world3 ''RPT-2024-0003'' = Some (fst (snd (saveReport_remote env_ok report3 world0)))
   \<and> ''attachments/RPT-2024-0003/photo.png'' \<in> dom (objects world3)
   \<and> docs world1b = docs world1 \<and> blobs world1b = blobs world1
   \<and> blobs world1b ''RPT-2024-0001_att_1'' = Some (replicate 800001 (CHR ''A''))
   \<and> events_since world1 world1b
     = [BlobPutCompleted ''RPT-2024-0001_att_1'', DocSetIssued ''RPT-2024-0001'']"
proof -
  have r1: "saveReport_remote env_ok report3 world0 = (Inr stored3, stored3, world3)"
    by (simp add: world3_def saveReport_remote_report3)
  have r2: "saveReport_remote env_ok stored3 world3 = (Inr stored3, stored3, world3b)"
    by (simp add: world3b_def world3_eq saveReport_remote_def prepareForFirestore_remote_def
        stored3_def report3_def file_att_def small_att_def upload_step_def truthy_def
        env_ok_def log_def doc_set_def)
  have l1: "saveReport_local env_ok report1 world0 = (Inr (), world1)"
    by (simp add: world1_def saveReport_local_def prepareForFirestore_local_def
        blob_puts_report1 saveBlobLocal_def env_ok_def world0_def log_def doc_set_def)
  have l2: "saveReport_local env_ok report1 world1 = (Inr (), world1b)"
    by (simp add: world1b_def world1_eq saveReport_local_def prepareForFirestore_local_def
        blob_puts_report1 saveBlobLocal_def env_ok_def log_def doc_set_def)
  have p: "upload_paths report3
      = [''attachments/RPT-2024-0003/photo.png'', ''attachments/RPT-2024-0003/note.txt'']"
    by (simp add: upload_paths_def report3_def file_att_def small_att_def raw_payload_def
        truthy_def upload_path_def)
  have raw: "0 < length (attachments report3)" "raw_payload (attachments report3 ! 0)"
    "upload_path (rid report3) (attachments report3 ! 0) = ''attachments/RPT-2024-0003/photo.png''"
    by (simp_all add: report3_def file_att_def raw_payload_def upload_path_def)
  have saved: "fst (snd (saveReport_remote env_ok report3 world0)) = stored3"
    by (simp add: r1)
  note t = save_twice_same_document
    [of env_ok report3 world0 stored3 stored3 world3 env_ok "Inr stored3" stored3 world3b]
  from t r1 r2
  have "events_since world0 world3
          = map UploadCompleted (upload_paths report3) @ [DocSetIssued (rid report3)]
        \<and> events_since world3 world3b = [DocSetIssued (rid report3)]
        \<and> docs world3b = docs world3 \<and> objects world3b = objects world3
        \<and> docs world3 (rid report3) = Some stored3
        \<and> set (upload_paths report3) \<subseteq> dom (objects world3)"
    by blast
  then have A: "events_since world0 world3
       = [UploadCompleted ''attachments/RPT-2024-0003/photo.png'',
          UploadCompleted ''attachments/RPT-2024-0003/note.txt'',
          DocSetIssued ''RPT-2024-0003'']"
    "events_since world3 world3b = [DocSetIssued ''RPT-2024-0003'']"
    "docs world3b = docs world3" "objects world3b = objects world3"
    "docs world3 ''RPT-2024-0003'' = Some (fst (snd (saveReport_remote env_ok report3 world0)))"
    "''attachments/RPT-2024-0003/photo.png'' \<in> dom (objects world3)"
    by (simp_all add: p saved) (simp_all add: report3_def)
  from t r1 r2 raw(1)
  have "if raw_payload (attachments report3 ! 0)
        then obj_url env_ok (upload_path (rid report3) (attachments report3 ! 0)) \<noteq> None
           \<and> attachments stored3 ! 0
               = (attachments report3 ! 0)
                   \<lparr>storageUrl := obj_url env_ok (upload_path (rid report3) (attachments report3 ! 0)),
                    storagePath := Some (upload_path (rid report3) (attachments report3 ! 0)),
                    att_file := None, dataUrl := None\<rparr>
        else attachments stored3 ! 0 = (attachments report3 ! 0)\<lparr>att_file := None, dataUrl := None\<rparr>"
    by blast
  with raw(2,3) have "storagePath (attachments stored3 ! 0) = Some ''attachments/RPT-2024-0003/photo.png''
      \<and> storageUrl (attachments stored3 ! 0) = Some ''https://storage/attachments/RPT-2024-0003/photo.png''
      \<and> att_file (attachments stored3 ! 0) = None"
    by (simp add: env_ok_def)
  then have C: "storagePath (attachments (fst (snd (saveReport_remote env_ok report3 world0))) ! 0)
       = Some ''attachments/RPT-2024-0003/photo.png''"
    "storageUrl (attachments (fst (snd (saveReport_remote env_ok report3 world0))) ! 0)
       = Some ''https://storage/attachments/RPT-2024-0003/photo.png''"
    "att_file (attachments (fst (snd (saveReport_remote env_ok report3 world0))) ! 0) = None"
    by (simp_all add: saved)
  note u = save_twice_same_document
    [of env_ok report1 world0 _ _ _ env_ok _ _ _ world1 "Inr ()" world1b]
  from u l1 l2
  have B: "docs world1b = docs world1" "blobs world1b = blobs world1"
    by blast+
  from u l1 l2
  have "\<forall>(k, d) \<in> set (blob_puts report1). blobs world1b k = Some d"
    by blast
  then have D: "blobs world1b ''RPT-2024-0001_att_1'' = Some (replicate 800001 (CHR ''A''))"
    by (simp add: blob_puts_report1)
  from u l1 l2
  have "events_since world1 world1b
            = map (BlobPutCompleted \<circ> fst) (blob_puts report1) @ [DocSetIssued (rid report1)]"
    by blast
  then have E: "events_since world1 world1b
     = [BlobPutCompleted ''RPT-2024-0001_att_1'', DocSetIssued ''RPT-2024-0001'']"
    by (simp add: blob_puts_report1) (simp add: report1_def)
  from A C B D E show ?thesis by blast
qed


section \<open>The activity feed of the admin page\<close>

text \<open>
  The values of the three filter controls when \<^verbatim>\<open>subscribeToActivity\<close> runs; an empty
  string is a control with no selection.
\<close>

record feed_filters =
  userFilter :: string
  actionFilter :: string
  dateFilter :: string

text \<open>
  A Firestore query on the collection \<^verbatim>\<open>activity\<close>: its equality clauses, its order and
  its limit.
\<close>

record query =
  wheres :: "(string \<times> string) list"
  orderBy :: "string \<times> string"
  limit :: nat

definition build_query :: "feed_filters \<Rightarrow> query" where
  "build_query f =
     (if userFilter f \<noteq> [] \<and> actionFilter f \<noteq> []
      then \<lparr>wheres = [(''username'', userFilter f), (''action'', actionFilter f)],
            orderBy = (''timestamp'', ''desc''), limit = 50\<rparr>
      else if userFilter f \<noteq> []
      then \<lparr>wheres = [(''username'', userFilter f)],
            orderBy = (''timestamp'', ''desc''), limit = 50\<rparr>
      else if actionFilter f \<noteq> []
      then \<lparr>wheres = [(''action'', actionFilter f)],
            orderBy = (''timestamp'', ''desc''), limit = 50\<rparr>
      else \<lparr>wheres = [], orderBy = (''timestamp'', ''desc''), limit = 50\<rparr>)"

text \<open>
  A live listener: the number that identifies it, its query, and the date filter its
  snapshot callback has captured. \<open>currentUnsubscribe\<close> holds the number of the listener
  whose unsubscribe function the variable refers to. \<open>calls\<close> lists the calls to
  \<^verbatim>\<open>onSnapshot\<close> and to unsubscribe functions in order.
\<close>

datatype feed_call = Subscribed nat | Unsubscribed nat

record feed =
  currentUnsubscribe :: "nat option"
  listeners :: "(nat \<times> query \<times> string) list"
  calls :: "feed_call list"
  next_listener :: nat

definition feed0 :: feed where
  "feed0 = \<lparr>currentUnsubscribe = None, listeners = [], calls = [], next_listener = 0\<rparr>"

text \<open>Calling the unsubscribe function of a listener detaches it, if it is still attached.\<close>

definition unsubscribe :: "nat \<Rightarrow> feed \<Rightarrow> feed" where
  "unsubscribe i s =
     s\<lparr>listeners := filter (\<lambda>l. fst l \<noteq> i) (listeners s), calls := calls s @ [Unsubscribed i]\<rparr>"

definition onSnapshot :: "query \<Rightarrow> string \<Rightarrow> feed \<Rightarrow> nat \<times> feed" where
  "onSnapshot q d s =
     (next_listener s,
      s\<lparr>listeners := listeners s @ [(next_listener s, q, d)],
        calls := calls s @ [Subscribed (next_listener s)],
        next_listener := Suc (next_listener s)\<rparr>)"

definition subscribeToActivity :: "feed_filters \<Rightarrow> feed \<Rightarrow> feed" where
  "subscribeToActivity f s =
     (let s1 = (case currentUnsubscribe s of None \<Rightarrow> s | Some i \<Rightarrow> unsubscribe i s);
          (i, s2) = onSnapshot (build_query f) (dateFilter f) s1
      in s2\<lparr>currentUnsubscribe := Some i\<rparr>)"

text \<open>
  The page subscribes once when it loads and again at every click on the button that
  applies the filters: the state after the filter values \<open>fs\<close>, oldest first.
\<close>

definition after_filters :: "feed_filters list \<Rightarrow> feed" where
  "after_filters fs = foldl (\<lambda>s f. subscribeToActivity f s) feed0 fs"

lemma after_filters_snoc:
  "after_filters (fs @ [f]) = subscribeToActivity f (after_filters fs)"
  by (simp add: after_filters_def)

lemma after_filters_state:
  "after_filters (fs @ [f]) =
     \<lparr>currentUnsubscribe = Some (length fs),
      listeners = [(length fs, build_query f, dateFilter f)],
      calls = Subscribed 0
                # concat (map (\<lambda>i. [Unsubscribed i, Subscribed (Suc i)]) [0..<length fs]),
      next_listener = Suc (length fs)\<rparr>"
proof (induction fs arbitrary: f rule: rev_induct)
  case Nil
  show ?case
    by (simp add: after_filters_def feed0_def subscribeToActivity_def onSnapshot_def)
next
  case (snoc g gs)
  show ?case
    unfolding after_filters_snoc [of "gs @ [g]" f] snoc.IH [of g]
    by (simp add: subscribeToActivity_def unsubscribe_def onSnapshot_def)
qed

text \<open>
  Claim C5. After any sequence of filter changes at most one listener is live. A
  subscription with the filters \<open>a\<close> followed by one with the filters \<open>b\<close> leaves exactly
  one live listener, the one for \<open>b\<close>; the second subscription has called the unsubscribe
  function of the listener for \<open>a\<close> and then opened the new listener, in this order.
\<close>

theorem one_live_subscription:
  "length (listeners (after_filters fs)) \<le> 1
   \<and> listeners (after_filters (fs @ [a])) = [(length fs, build_query a, dateFilter a)]
   \<and> listeners (after_filters (fs @ [a, b])) = [(Suc (length fs), build_query b, dateFilter b)]
   \<and> calls (after_filters (fs @ [a, b]))
       = calls (after_filters (fs @ [a])) @ [Unsubscribed (length fs), Subscribed (Suc (length fs))]"
proof (intro conjI)
  show "length (listeners (after_filters fs)) \<le> 1"
  proof (cases fs rule: rev_cases)
    case Nil
    then show ?thesis by (simp add: after_filters_def feed0_def)
  next
    case (snoc gs g)
    then show ?thesis by (simp add: after_filters_state)
  qed
  show "listeners (after_filters (fs @ [a])) = [(length fs, build_query a, dateFilter a)]"
    by (simp add: after_filters_state)
  have ab: "fs @ [a, b] = (fs @ [a]) @ [b]" by simp
  show "listeners (after_filters (fs @ [a, b])) = [(Suc (length fs), build_query b, dateFilter b)]"
    unfolding ab by (simp add: after_filters_state del: append_assoc)
  show "calls (after_filters (fs @ [a, b]))
       = calls (after_filters (fs @ [a])) @ [Unsubscribed (length fs), Subscribed (Suc (length fs))]"
    unfolding ab by (simp add: after_filters_state del: append_assoc)
qed


section \<open>Loading the list of reports when the dashboard starts\<close>

text \<open>
  How the promise of \<^verbatim>\<open>StorageDB.getAllReports()\<close> settles: it resolves or rejects so
  many milliseconds after the call, or it never settles.
\<close>

datatype 'a settlement = Resolves nat 'a | Rejects nat error | Pending

text \<open>
  \<^verbatim>\<open>Promise.race([StorageDB.getAllReports(), dbTimeout])\<close>, where \<^verbatim>\<open>dbTimeout\<close> rejects
  after 3000 ms: the time at which the race settles, and its outcome. The timer is set
  before the read is started, so at 3000 ms exactly the timer wins.
\<close>

definition race_dbTimeout :: "'a settlement \<Rightarrow> nat \<times> (error + 'a)" where
  "race_dbTimeout p =
     (case p of
        Resolves t v \<Rightarrow> if t < 3000 then (t, Inr v) else (3000, Inl DBTimeout)
      | Rejects t err \<Rightarrow> if t < 3000 then (t, Inl err) else (3000, Inl DBTimeout)
      | Pending \<Rightarrow> (3000, Inl DBTimeout))"

datatype console_entry = ConsoleLog string | ConsoleError error

record app =
  REPORTS :: "report list"
  console :: "console_entry list"

text \<open>
  The load at the start of the dashboard: the time at which it is over, and the list and
  the console after it.
\<close>

definition load_from_storage :: "report list settlement \<Rightarrow> app \<Rightarrow> nat \<times> app" where
  "load_from_storage p s =
     (case race_dbTimeout p of
        (t, Inr saved) \<Rightarrow>
          (t, if saved \<noteq> []
              then s\<lparr>REPORTS := saved,
                     console := console s
                       @ [ConsoleLog (''Loaded '' @ String_nat (length saved)
                                        @ '' report(s) from storage.'')]\<rparr>
              else s)
      | (t, Inl err) \<Rightarrow> (t, s\<lparr>console := console s @ [ConsoleError err]\<rparr>))"

definition app1 :: app where
  "app1 = \<lparr>REPORTS = [report1], console = []\<rparr>"

text \<open>
  Claim C6. The load is over after 3000 ms at most. When the remote read rejects, or
  does not settle within 3000 ms, the list of reports is left as it was and an error is
  written to the console.
\<close>

theorem load_keeps_list_on_failure:
  "fst (load_from_storage p s) \<le> 3000
   \<and> (p = Pending \<or> (\<exists>t v. p = Resolves t v \<and> 3000 < t) \<or> (\<exists>t err. p = Rejects t err) \<longrightarrow>
        REPORTS (snd (load_from_storage p s)) = REPORTS s
        \<and> (\<exists>err. console (snd (load_from_storage p s)) = console s @ [ConsoleError err]))"
  by (cases p) (auto simp: load_from_storage_def race_dbTimeout_def)

theorem load_keeps_list_on_failure_witness:
  "fst (load_from_storage Pending app1) \<le> 3000
   \<and> REPORTS (snd (load_from_storage Pending app1)) = [report1]
   \<and> console (snd (load_from_storage Pending app1)) = [ConsoleError DBTimeout]
   \<and> REPORTS (snd (load_from_storage (Resolves 5000 []) app1)) = [report1]
   \<and> REPORTS (snd (load_from_storage (Rejects 20 FirestoreError) app1)) = [report1]"
proof -
  from load_keeps_list_on_failure [of Pending app1]
  have "fst (load_from_storage Pending app1) \<le> 3000
      \<and> REPORTS (snd (load_from_storage Pending app1)) = REPORTS app1"
    by simp
  moreover from load_keeps_list_on_failure [of "Resolves 5000 []" app1]
  have "REPORTS (snd (load_from_storage (Resolves 5000 []) app1)) = REPORTS app1"
    by simp
  moreover from load_keeps_list_on_failure [of "Rejects 20 FirestoreError" app1]
  have "REPORTS (snd (load_from_storage (Rejects 20 FirestoreError) app1)) = REPORTS app1"
    by simp
  moreover have "console (snd (load_from_storage Pending app1)) = [ConsoleError DBTimeout]"
    by (simp add: load_from_storage_def race_dbTimeout_def app1_def)
  ultimately show ?thesis by (simp add: app1_def)
qed

section \<open>Creating and deleting reports in the dashboard\<close>

text \<open>
  \<^verbatim>\<open>String.prototype.padStart\<close> with a one-character filler: the string is padded on the
  left up to the length, and left as it is when it is as long or longer.
\<close>

definition padStart :: "nat \<Rightarrow> char \<Rightarrow> string \<Rightarrow> string" where
  "padStart n c s = replicate (n - length s) c @ s"

definition new_report_id :: "nat \<Rightarrow> report list \<Rightarrow> string" where
  "new_report_id year reports =
     ''RPT-'' @ String_nat year @ ''-'' @ padStart 4 (CHR ''0'') (String_nat (length reports + 1))"

text \<open>
  The branch of the submit handler that creates a report, from the year of the clock,
  the values of the form and the attachments read from the pending files: the new
  report goes to the front of the list.
\<close>

definition create_report ::
  "nat \<Rightarrow> string \<Rightarrow> (string \<times> string) list \<Rightarrow> string \<Rightarrow> attachment list \<Rightarrow> report list \<Rightarrow> report list" where
  "create_report year d fs content atts reports =
     (let i = new_report_id year reports;
          report = \<lparr>rid = i, date = d,
            descriptive = fs @ [(''content'',
              if content = []
              then ''# Report: '' @ i @ [CHR 0x0A, CHR 0x0A] @ ''No detailed content provided.''
              else content)],
            attachments = atts\<rparr>
      in report # reports)"

text \<open>
  The confirmed delete: \<^verbatim>\<open>findIndex\<close> and \<^verbatim>\<open>splice\<close> take the first report with the id
  out of the list.
\<close>

fun remove_report :: "string \<Rightarrow> report list \<Rightarrow> report list" where
  "remove_report i [] = []"
| "remove_report i (r # rs) = (if rid r = i then rs else r # remove_report i rs)"

definition after_one_delete :: "report list" where
  "after_one_delete =
     remove_report ''RPT-2024-0001''
       (create_report 2024 ''2024-06-02'' [] [] []
         (create_report 2024 ''2024-06-01'' [] [] [] []))"

lemma new_report_id_first: "new_report_id 2024 [] = ''RPT-2024-0001''"
  by code_simp

lemma new_report_id_second: "new_report_id 2024 [r] = ''RPT-2024-0002''"
  by code_simp

text \<open>
  Claim C7. Two reports are created in 2024 and the first is deleted. The list holds the
  report \<^verbatim>\<open>RPT-2024-0002\<close>, and the next report created gets the id \<^verbatim>\<open>RPT-2024-0002\<close>
  too: the list then holds two reports with one id.
\<close>

theorem new_report_id_repeats_after_delete:
  "map rid after_one_delete = [''RPT-2024-0002'']
   \<and> new_report_id 2024 after_one_delete = ''RPT-2024-0002''
   \<and> map rid (create_report 2024 ''2024-06-03'' [] [] [] after_one_delete)
       = [''RPT-2024-0002'', ''RPT-2024-0002'']"
proof -
  have m: "map rid after_one_delete = [''RPT-2024-0002'']"
    by (simp add: after_one_delete_def create_report_def Let_def
        new_report_id_first new_report_id_second)
  then obtain r where r: "after_one_delete = [r]" by auto
  have n: "new_report_id 2024 after_one_delete = ''RPT-2024-0002''"
    unfolding r by (rule new_report_id_second)
  from m n show ?thesis
    by (simp add: create_report_def Let_def)
qed


end
